theory Spec2Isabelle
  imports Main "HOL-Library.Sublist" "HOL-Library.AList"
begin

section \<open>Python values shared by the modules\<close>

text \<open>
  A Python \<open>str\<close> is represented by the bytes of its UTF-8 encoding, so \<open>str.encode()\<close> is
  the identity and \<open>bytes.decode()\<close> is the identity on well-formed UTF-8 and raises
  \<open>UnicodeDecodeError\<close> elsewhere. The delimiters, prefixes and name characters the
  program looks for are ASCII, and an ASCII byte never occurs inside a multi-byte
  character, so searching and splitting act on the bytes as they do on the code points.
\<close>

datatype error =
    GameOverError string
  | PlayerDisconnectedError string
  | RuntimeError string
  | NotImplementedError string
  | AttributeError
  | IndexError
  | UnicodeDecodeError

abbreviation CR :: char where "CR \<equiv> CHR 0x0D"
abbreviation LF :: char where "LF \<equiv> CHR 0x0A"

text \<open>\<open>message.startswith(p)\<close> is \<^const>\<open>prefix\<close>, \<open>message.endswith(p)\<close> is \<^const>\<open>suffix\<close>.\<close>

text \<open>
  \<open>eol in message\<close> followed by \<open>message.split(eol, 1)\<close>: the text before and after the
  leftmost occurrence of \<open>eol\<close>, or \<open>None\<close> when \<open>eol\<close> does not occur.
\<close>

fun split_once :: "string \<Rightarrow> string \<Rightarrow> (string \<times> string) option" where
  "split_once eol [] = (if eol = [] then Some ([], []) else None)"
| "split_once eol (c # cs) =
     (if prefix eol (c # cs) then Some ([], drop (length eol) (c # cs))
      else map_option (\<lambda>(before, extra). (c # before, extra)) (split_once eol cs))"

subsection \<open>The strict UTF-8 decoder of \<open>bytes.decode()\<close>\<close>

text \<open>
  The decoder is the standard automaton of well-formed UTF-8 (no overlong forms, no
  surrogates, nothing above U+10FFFF), which is what CPython's strict decoder accepts.
\<close>

datatype utf8_state =
  U_start | U_cont1 | U_cont2 | U_cont3 | U_e0 | U_ed | U_f0 | U_f4 | U_reject

definition in_range :: "nat \<Rightarrow> nat \<Rightarrow> char \<Rightarrow> bool" where
  "in_range lo hi c = (lo \<le> of_char c \<and> of_char c \<le> hi)"

fun utf8_step :: "utf8_state \<Rightarrow> char \<Rightarrow> utf8_state" where
  "utf8_step U_start c =
     (if in_range 0x00 0x7F c then U_start
      else if in_range 0xC2 0xDF c then U_cont1
      else if in_range 0xE0 0xE0 c then U_e0
      else if in_range 0xE1 0xEC c then U_cont2
      else if in_range 0xED 0xED c then U_ed
      else if in_range 0xEE 0xEF c then U_cont2
      else if in_range 0xF0 0xF0 c then U_f0
      else if in_range 0xF1 0xF3 c then U_cont3
      else if in_range 0xF4 0xF4 c then U_f4
      else U_reject)"
| "utf8_step U_cont1 c = (if in_range 0x80 0xBF c then U_start else U_reject)"
| "utf8_step U_cont2 c = (if in_range 0x80 0xBF c then U_cont1 else U_reject)"
| "utf8_step U_cont3 c = (if in_range 0x80 0xBF c then U_cont2 else U_reject)"
| "utf8_step U_e0 c = (if in_range 0xA0 0xBF c then U_cont1 else U_reject)"
| "utf8_step U_ed c = (if in_range 0x80 0x9F c then U_cont1 else U_reject)"
| "utf8_step U_f0 c = (if in_range 0x90 0xBF c then U_cont2 else U_reject)"
| "utf8_step U_f4 c = (if in_range 0x80 0x8F c then U_cont2 else U_reject)"
| "utf8_step U_reject c = U_reject"

definition valid_utf8 :: "string \<Rightarrow> bool" where
  "valid_utf8 bs = (foldl utf8_step U_start bs = U_start)"

definition decode :: "string \<Rightarrow> error + string" where
  "decode data = (if valid_utf8 data then Inr data else Inl UnicodeDecodeError)"

definition encode :: "string \<Rightarrow> string" where
  "encode message = message"

section \<open>streams_util.py\<close>

subsection \<open>The transport\<close>

text \<open>
  What the successive \<open>await reader.read(100)\<close> of an \<open>asyncio.StreamReader\<close> do: each
  returns a chunk of bytes or raises \<open>ConnectionResetError\<close>. When the list is exhausted
  the stream is at its end, where every further read returns \<open>b''\<close>.
\<close>

datatype read_event = Chunk string | Reset

definition read :: "read_event list \<Rightarrow> read_event \<times> read_event list" where
  "read reader = (case reader of [] \<Rightarrow> (Chunk [], []) | ev # reader' \<Rightarrow> (ev, reader'))"

text \<open>
  What the successive \<open>writer.write(...); await writer.drain()\<close> of an
  \<open>asyncio.StreamWriter\<close> do: the bytes are sent, or \<open>ConnectionResetError\<close> or
  \<open>BrokenPipeError\<close> is raised; the flag says whether the transport is closing afterwards.
  An exhausted list means every further write is sent.
\<close>

datatype write_event = Written | WriteReset bool | WriteBrokenPipe bool

record writer =
  closing :: bool
  sent :: string
  faults :: "write_event list"

subsection \<open>readline\<close>

definition eols :: "string list" where
  "eols = [[CR, LF], [LF]]"

text \<open>The loop \<open>for eol in ["\r\n", "\n"]: if eol in message: ... split(eol, 1)\<close>.\<close>

fun split_eol :: "string list \<Rightarrow> string \<Rightarrow> (string \<times> string) option" where
  "split_eol [] message = None"
| "split_eol (eol # rest) message =
     (case split_once eol message of
        Some r \<Rightarrow> Some r
      | None \<Rightarrow> split_eol rest message)"

text \<open>
  The first loop, \<open>while buffer: message += buffer.popleft() ...\<close>: the line returned (if
  one was found), the message accumulated, and the buffer left.
\<close>

fun drain_buffer :: "string \<Rightarrow> string list \<Rightarrow> string option \<times> string \<times> string list" where
  "drain_buffer message [] = (None, message, [])"
| "drain_buffer message (b # buffer) =
     (case split_eol eols (message @ b) of
        Some (line, extra) \<Rightarrow>
          (Some line, line, if extra \<noteq> [] then extra # buffer else buffer)
      | None \<Rightarrow> drain_buffer (message @ b) buffer)"

text \<open>The code after the \<open>try\<close>: \<open>if data: message = data.decode(); return message\<close>.\<close>

definition after_loop :: "string \<Rightarrow> error + string option" where
  "after_loop data =
     (if data \<noteq> [] then
        (case decode data of Inl e \<Rightarrow> Inl e | Inr message \<Rightarrow> Inr (Some message))
      else Inr None)"

text \<open>
  The second loop, \<open>while data := data + await reader.read(100): ...\<close>. It may run forever,
  so it is a partial function: \<open>None\<close> is the loop that never returns.
\<close>

partial_function (option) read_loop ::
  "string \<Rightarrow> string list \<Rightarrow> read_event list \<Rightarrow>
   ((error + string option) \<times> string list \<times> read_event list) option" where
  "read_loop data buffer reader =
     (case read reader of
        (Reset, reader') \<Rightarrow> Some (after_loop data, buffer, reader')
      | (Chunk bytes, reader') \<Rightarrow>
          (if data @ bytes = [] then Some (after_loop (data @ bytes), buffer, reader')
           else
             (case decode (data @ bytes) of
                Inl e \<Rightarrow> Some (Inl e, buffer, reader')
              | Inr message \<Rightarrow>
                  (case split_eol eols message of
                     Some (line, extra) \<Rightarrow>
                       Some (Inr (Some line),
                             if extra \<noteq> [] then buffer @ [extra] else buffer, reader')
                   | None \<Rightarrow> read_loop (data @ bytes) buffer reader'))))"

declare read_loop.simps [code]

definition readline ::
  "read_event list \<Rightarrow> string list \<Rightarrow>
   ((error + string option) \<times> string list \<times> read_event list) option" where
  "readline reader buffer =
     (case drain_buffer [] buffer of
        (Some line, _, buffer') \<Rightarrow> Some (Inr (Some line), buffer', reader)
      | (None, message, buffer') \<Rightarrow> read_loop (encode message) buffer' reader)"

subsection \<open>writeline\<close>

definition writeline :: "writer \<Rightarrow> string \<Rightarrow> bool \<times> writer" where
  "writeline w message =
     (let message = (if \<not> suffix [LF] message then message @ [LF] else message) in
      if closing w then (False, w)
      else
        (case faults w of
           [] \<Rightarrow> (True, w\<lparr>sent := sent w @ encode message\<rparr>)
         | Written # rest \<Rightarrow> (True, w\<lparr>sent := sent w @ encode message, faults := rest\<rparr>)
         | WriteReset c # rest \<Rightarrow> (False, w\<lparr>closing := c, faults := rest\<rparr>)
         | WriteBrokenPipe c # rest \<Rightarrow> (False, w\<lparr>closing := c, faults := rest\<rparr>)))"


subsection \<open>Writing a sequence of lines and reading a sequence back\<close>

text \<open>
  A connection's writer before anything was written, successive calls of \<open>writeline\<close> on
  one writer, and successive calls of \<open>readline\<close> on one reader and buffer.
\<close>

definition new_writer :: writer where
  "new_writer = \<lparr>closing = False, sent = [], faults = []\<rparr>"





section \<open>server.py\<close>

subsection \<open>Text helpers of the standard library\<close>

text \<open>\<open>"%d" % n\<close> for a natural number.\<close>

function string_of_nat :: "nat \<Rightarrow> string" where
  "string_of_nat n =
     (if n < 10 then [char_of (48 + n)]
      else string_of_nat (n div 10) @ [char_of (48 + n mod 10)])"
  by pat_completeness auto
termination
  by (relation "measure id") auto

text \<open>
  The white space of \<open>str.isspace\<close>, as UTF-8: the ASCII characters U+0009 to U+000D,
  U+001C to U+0020, then U+0085, U+00A0, U+1680, U+2000 to U+200A, U+2028, U+2029,
  U+202F, U+205F and U+3000.
\<close>

definition whitespace :: "string list" where
  "whitespace =
     [[CHR 0x09], [CHR 0x0A], [CHR 0x0B], [CHR 0x0C], [CHR 0x0D],
      [CHR 0x1C], [CHR 0x1D], [CHR 0x1E], [CHR 0x1F], [CHR 0x20],
      [CHR 0xC2, CHR 0x85], [CHR 0xC2, CHR 0xA0], [CHR 0xE1, CHR 0x9A, CHR 0x80],
      [CHR 0xE2, CHR 0x80, CHR 0x80], [CHR 0xE2, CHR 0x80, CHR 0x81],
      [CHR 0xE2, CHR 0x80, CHR 0x82], [CHR 0xE2, CHR 0x80, CHR 0x83],
      [CHR 0xE2, CHR 0x80, CHR 0x84], [CHR 0xE2, CHR 0x80, CHR 0x85],
      [CHR 0xE2, CHR 0x80, CHR 0x86], [CHR 0xE2, CHR 0x80, CHR 0x87],
      [CHR 0xE2, CHR 0x80, CHR 0x88], [CHR 0xE2, CHR 0x80, CHR 0x89],
      [CHR 0xE2, CHR 0x80, CHR 0x8A], [CHR 0xE2, CHR 0x80, CHR 0xA8],
      [CHR 0xE2, CHR 0x80, CHR 0xA9], [CHR 0xE2, CHR 0x80, CHR 0xAF],
      [CHR 0xE2, CHR 0x81, CHR 0x9F], [CHR 0xE3, CHR 0x80, CHR 0x80]]"

lemma whitespace_nonempty: "w \<in> set whitespace \<Longrightarrow> w \<noteq> []"
  by (auto simp: whitespace_def)

text \<open>\<open>str.strip()\<close>: white space is removed from both ends.\<close>

function lstrip :: "string \<Rightarrow> string" where
  "lstrip s =
     (case find (\<lambda>w. prefix w s) whitespace of
        Some w \<Rightarrow> lstrip (drop (length w) s)
      | None \<Rightarrow> s)"
  by pat_completeness auto
termination
proof (relation "measure length")
  fix s w
  assume "find (\<lambda>w. prefix w s) whitespace = Some w"
  then have "w \<in> set whitespace" "prefix w s"
    by (auto simp: find_Some_iff)
  then have "w \<noteq> []" "length w \<le> length s"
    by (auto simp: whitespace_nonempty prefix_length_le)
  then show "(drop (length w) s, s) \<in> measure length"
    by (cases w) auto
qed simp

function rstrip :: "string \<Rightarrow> string" where
  "rstrip s =
     (case find (\<lambda>w. suffix w s) whitespace of
        Some w \<Rightarrow> rstrip (take (length s - length w) s)
      | None \<Rightarrow> s)"
  by pat_completeness auto
termination
proof (relation "measure length")
  fix s w
  assume "find (\<lambda>w. suffix w s) whitespace = Some w"
  then have "w \<in> set whitespace" "suffix w s"
    by (auto simp: find_Some_iff)
  then have "w \<noteq> []" "length w \<le> length s"
    by (auto simp: whitespace_nonempty suffix_length_le)
  then show "(take (length s - length w) s, s) \<in> measure length"
    by (cases w) auto
qed simp

definition strip :: "string \<Rightarrow> string" where
  "strip s = rstrip (lstrip s)"

text \<open>\<open>re.sub("[^a-zA-Z0-9]+", "_", name)\<close>: every maximal run of characters outside
  the class becomes one underscore.\<close>

definition is_alnum :: "char \<Rightarrow> bool" where
  "is_alnum c = (in_range 0x61 0x7A c \<or> in_range 0x41 0x5A c \<or> in_range 0x30 0x39 c)"

function re_sub :: "string \<Rightarrow> string" where
  "re_sub [] = []"
| "re_sub (c # cs) =
     (if is_alnum c then c # re_sub cs
      else CHR ''_'' # re_sub (dropWhile (\<lambda>x. \<not> is_alnum x) cs))"
  by pat_completeness auto
termination
  by (relation "measure length") (auto simp: le_imp_less_Suc length_dropWhile_le)

subsection \<open>Connection\<close>

text \<open>
  The fields of the dataclass; \<open>conn_type\<close> is the field \<open>type\<close>. The reader is what the
  stream has still to deliver. The attributes are a dictionary in insertion order.
\<close>

record connection =
  addr :: "string \<times> nat"
  name :: string
  conn_type :: string
  reader :: "read_event list"
  writer :: writer
  buffer :: "string list"
  attributes :: "(string \<times> int) list"

definition is_closed :: "connection \<Rightarrow> bool" where
  "is_closed conn = closing (writer conn)"

text \<open>The parameter \<open>amount\<close> is not used by the body.\<close>

definition increment_attribute :: "connection \<Rightarrow> string \<Rightarrow> int \<Rightarrow> connection" where
  "increment_attribute conn attribute amount =
     (let attrs =
            (if map_of (attributes conn) attribute = None
             then AList.update attribute 0 (attributes conn)
             else attributes conn)
      in conn\<lparr>attributes := AList.map_entry attribute (\<lambda>v. v + 1) attrs\<rparr>)"

subsection \<open>Server\<close>

text \<open>
  Connection objects are shared between the lists, the name index, the queues and the
  tasks that hold them, and they are mutated in place; so they live in a heap, and the
  lists hold their addresses. Two connections are equal exactly when they are the same
  object (their readers and writers are compared by identity).
\<close>

record server =
  connections :: "nat list"
  names :: "(string \<times> nat) list"
  old_attributes :: "(string \<times> (string \<times> int) list) list"
  connection_queue :: "nat list"
  disconnection_queue :: "nat list"
  heap :: "nat \<Rightarrow> connection"

definition Server :: server where
  "Server =
     \<lparr>connections = [], names = [], old_attributes = [], connection_queue = [],
      disconnection_queue = [],
      heap = (\<lambda>_. \<lparr>addr = ([], 0), name = [], conn_type = [], reader = [],
                     writer = new_writer, buffer = [], attributes = []\<rparr>)\<rparr>"

definition name_exists :: "server \<Rightarrow> string \<Rightarrow> bool" where
  "name_exists s n = (map_of (names s) n \<noteq> None)"

definition prefix_message :: "string \<Rightarrow> bool \<Rightarrow> string" where
  "prefix_message message expected_response =
     (if prefix ''Y: '' message \<or> prefix ''N: '' message then message
      else if expected_response then ''Y: '' @ message
      else ''N: '' @ message)"

lemma writeline_fails:
  "fst (writeline w m) = False \<Longrightarrow>
   (closing w \<and> snd (writeline w m) = w) \<or>
   (\<not> closing w \<and> length (faults (snd (writeline w m))) < length (faults w))"
  by (auto simp: writeline_def Let_def split: if_splits list.splits write_event.splits)

text \<open>
  The body of \<open>close_connection\<close> after the final \<open>quit\<close> was sent (lines 139 to 154):
  the connection leaves the live list and the name index, its transport is closed, its
  attributes are saved under its name, and it is appended to the disconnection queue.
\<close>

definition unregister :: "server \<Rightarrow> nat \<Rightarrow> server" where
  "unregister s1 c =
     (let s2 = (if c \<in> set (connections s1)
                then s1\<lparr>connections := remove1 c (connections s1)\<rparr> else s1);
          s3 = (if map_of (names s2) (name (heap s2 c)) \<noteq> None
                then s2\<lparr>names := AList.delete (name (heap s2 c)) (names s2)\<rparr> else s2);
          s4 = s3\<lparr>heap := (heap s3)
                  (c := (heap s3 c)\<lparr>writer := (writer (heap s3 c))\<lparr>closing := True\<rparr>\<rparr>)\<rparr>;
          s5 = (if attributes (heap s4 c) \<noteq> []
                then s4\<lparr>old_attributes :=
                          AList.update (name (heap s4 c)) (attributes (heap s4 c))
                            (old_attributes s4)\<rparr>
                else s4)
      in s5\<lparr>disconnection_queue := disconnection_queue s5 @ [c]\<rparr>)"

text \<open>
  The write of \<open>send_message\<close> (lines 166 to 169): the message, prefixed for a socket
  connection, goes through \<open>writeline\<close> to the connection's writer.
\<close>

definition write_message :: "server \<Rightarrow> nat \<Rightarrow> string \<Rightarrow> bool \<times> server" where
  "write_message s c message =
     (let conn = heap s c;
          message' = (if conn_type conn = ''SOCKET'' then prefix_message message False
                      else message);
          r = writeline (writer conn) message'
      in (fst r, s\<lparr>heap := (heap s)(c := conn\<lparr>writer := snd r\<rparr>)\<rparr>))"

lemma write_message_fails:
  "fst (write_message s c m) = False \<Longrightarrow>
   (closing (writer (heap s c)) \<and>
      closing (writer (heap (snd (write_message s c m)) c))) \<or>
   (\<not> closing (writer (heap s c)) \<and>
      length (faults (writer (heap (snd (write_message s c m)) c)))
        < length (faults (writer (heap s c))))"
  using writeline_fails[of "writer (heap s c)"]
  by (fastforce simp: write_message_def Let_def)

text \<open>
  \<open>close_connection\<close> sends the final \<open>quit\<close> through \<open>send_message\<close>, which closes the
  connection when the write fails: the two call each other.
\<close>

function close_connection :: "server \<Rightarrow> nat \<Rightarrow> server"
  and send_message :: "server \<Rightarrow> nat \<Rightarrow> string \<Rightarrow> server" where
  "close_connection s c =
     unregister (if \<not> is_closed (heap s c) then send_message s c ''quit'' else s) c"
| "send_message s c message =
     (case write_message s c message of
        (success, s1) \<Rightarrow> if \<not> success then close_connection s1 c else s1)"
  by pat_completeness auto
termination
proof (relation "measure (\<lambda>x. case x of
        Inl (s, c) \<Rightarrow>
          (if closing (writer (heap s c)) then 0
           else 2 * length (faults (writer (heap s c))) + 2)
      | Inr (s, c, message) \<Rightarrow>
          (if closing (writer (heap s c)) then 1
           else 2 * length (faults (writer (heap s c))) + 1))", goal_cases)
  case 1
  show ?case by simp
next
  case (2 s c)
  then show ?case by (simp add: is_closed_def)
next
  case (3 s c message success s1)
  then have "fst (write_message s c message) = False" "snd (write_message s c message) = s1"
    by (simp_all add: prod_eq_iff)
  with write_message_fails[of s c message]
  show ?case by auto
qed

text \<open>
  Reading goes through \<open>readline\<close>, which may never return; so do the functions that
  read, and \<open>None\<close> is again the call that never returns. An exception that escapes
  (\<open>UnicodeDecodeError\<close> from \<open>readline\<close>) is the result \<open>Inl\<close>.
\<close>

definition read_message ::
  "server \<Rightarrow> nat \<Rightarrow> ((error + string option) \<times> server) option" where
  "read_message s c =
     (case readline (reader (heap s c)) (buffer (heap s c)) of
        None \<Rightarrow> None
      | Some (response, buffer', reader') \<Rightarrow>
          (let s1 = s\<lparr>heap := (heap s)
                      (c := (heap s c)\<lparr>reader := reader', buffer := buffer'\<rparr>)\<rparr>
           in case response of
                Inl e \<Rightarrow> Some (Inl e, s1)
              | Inr None \<Rightarrow> Some (Inr None, close_connection s1 c)
              | Inr (Some text) \<Rightarrow>
                  if text = ''quit'' then Some (Inr None, close_connection s1 c)
                  else Some (Inr (Some text), s1)))"

definition get_response ::
  "server \<Rightarrow> nat \<Rightarrow> string \<Rightarrow> ((error + string option) \<times> server) option" where
  "get_response s c prompt =
     (let prompt' = (if conn_type (heap s c) = ''SOCKET'' then prefix_message prompt True
                     else prompt)
      in read_message (send_message s c prompt') c)"

subsection \<open>The handshake\<close>

text \<open>
  The checks of one round of the handshake loop (lines 84 to 101) on the line the client
  sent: the message of the rejection (\<open>Inl\<close>) or the name accepted (\<open>Inr\<close>).
\<close>

definition normalize_name :: "string \<Rightarrow> string" where
  "normalize_name requested = re_sub (strip requested)"

definition validate_name :: "server \<Rightarrow> string \<Rightarrow> string + string" where
  "validate_name s requested =
     (let n = normalize_name requested in
      if n = [] \<or> n = ''_'' then
        Inl ''Sorry, you must have letters or numbers in your name''
      else if length n < 2 then Inl ''Sorry, your name must be 2 or more letters''
      else if length n > 10 then Inl ''Sorry, your name must be 10 or fewer letters''
      else if name_exists s n then Inl ''Sorry, that name is already being used''
      else Inr n)"

text \<open>
  The end of the handshake (lines 103 to 113): the connection takes the name and the
  attributes saved under it, and enters the live list, the name index and the
  connection queue. The keepalive task it starts is \<open>ping_connection\<close> below.
\<close>

definition register :: "server \<Rightarrow> nat \<Rightarrow> string \<Rightarrow> server" where
  "register s c n =
     (let conn = (heap s c)\<lparr>name := n\<rparr>;
          conn' = (case map_of (old_attributes s) n of
                     Some attrs \<Rightarrow> conn\<lparr>attributes := attrs\<rparr>
                   | None \<Rightarrow> conn)
      in s\<lparr>heap := (heap s)(c := conn'),
            connections := connections s @ [c],
            names := AList.update n c (names s),
            connection_queue := connection_queue s @ [c]\<rparr>)"

partial_function (option) handle_hello_connection ::
  "server \<Rightarrow> nat \<Rightarrow> ((error + unit) \<times> server) option" where
  "handle_hello_connection s c =
     (case get_response s c ''What is your name?'' of
        None \<Rightarrow> None
      | Some (Inl e, s1) \<Rightarrow> Some (Inl e, s1)
      | Some (Inr None, s1) \<Rightarrow> Some (Inr (), s1)
      | Some (Inr (Some requested), s1) \<Rightarrow>
          (case validate_name s1 requested of
             Inl rejection \<Rightarrow> handle_hello_connection (send_message s1 c rejection) c
           | Inr n \<Rightarrow> Some (Inr (), register s1 c n)))"

declare handle_hello_connection.simps [code]

subsection \<open>The other connections\<close>

text \<open>The loop of \<open>handle_browser_connection\<close>, which reads the request up to a line
  that is empty or missing.\<close>

partial_function (option) read_request ::
  "server \<Rightarrow> nat \<Rightarrow> string list \<Rightarrow> ((error + string list) \<times> server) option" where
  "read_request s c request =
     (case read_message s c of
        None \<Rightarrow> None
      | Some (Inl e, s1) \<Rightarrow> Some (Inl e, s1)
      | Some (Inr None, s1) \<Rightarrow> Some (Inr request, s1)
      | Some (Inr (Some data), s1) \<Rightarrow>
          if data = [] then Some (Inr request, s1)
          else read_request s1 c (request @ [data]))"

declare read_request.simps [code]

definition handle_browser_connection ::
  "server \<Rightarrow> nat \<Rightarrow> string \<Rightarrow> ((error + unit) \<times> server) option" where
  "handle_browser_connection s c data =
     (case read_request s c [data] of
        None \<Rightarrow> None
      | Some (Inl e, s1) \<Rightarrow> Some (Inl e, s1)
      | Some (Inr request, s1) \<Rightarrow>
          (let s2 = send_message s1 c
                      (''HTTP/1.0 200 OK'' @ [LF, LF] @
                       ''<html><body><h1>Hello World</h1></body></html>'')
           in Some (Inr (),
                s2\<lparr>heap := (heap s2)
                  (c := (heap s2 c)\<lparr>writer := (writer (heap s2 c))\<lparr>closing := True\<rparr>\<rparr>)\<rparr>)))"

text \<open>
  \<open>handle_connection\<close> is called with the reader and the writer of a new transport; the
  Connection object it creates is allocated at the address \<open>c\<close>.
\<close>

definition handle_connection ::
  "server \<Rightarrow> nat \<Rightarrow> string \<times> nat \<Rightarrow> read_event list \<Rightarrow> writer \<Rightarrow>
   ((error + unit) \<times> server) option" where
  "handle_connection s c peername rd wr =
     (let conn = \<lparr>addr = peername,
                  name = fst peername @ '':'' @ string_of_nat (snd peername),
                  conn_type = [], reader = rd, writer = wr, buffer = [], attributes = []\<rparr>;
          s0 = s\<lparr>heap := (heap s)(c := conn)\<rparr>
      in case read_message s0 c of
           None \<Rightarrow> None
         | Some (Inl e, s1) \<Rightarrow> Some (Inl e, s1)
         | Some (Inr None, s1) \<Rightarrow> Some (Inr (), s1)
         | Some (Inr (Some message), s1) \<Rightarrow>
             if prefix ''GET /'' message then
               handle_browser_connection
                 (s1\<lparr>heap := (heap s1)(c := (heap s1 c)\<lparr>conn_type := ''BROWSER''\<rparr>)\<rparr>) c message
             else if message = ''HELLO'' then
               handle_hello_connection
                 (s1\<lparr>heap := (heap s1)(c := (heap s1 c)\<lparr>conn_type := ''SOCKET''\<rparr>)\<rparr>) c
             else Some (Inr (), s1))"

subsection \<open>The keepalive\<close>

text \<open>
  One round of the loop of \<open>ping_connection\<close>, up to its \<open>await asyncio.sleep(2)\<close>, where
  other tasks run: whether the loop goes on, and the server afterwards.
\<close>

definition ping_connection :: "server \<Rightarrow> nat \<Rightarrow> bool \<times> server" where
  "ping_connection s c =
     (if is_closed (heap s c) then (False, s)
      else
        (case writeline (writer (heap s c)) ''PING'' of
           (success, w) \<Rightarrow>
             (let s1 = s\<lparr>heap := (heap s)(c := (heap s c)\<lparr>writer := w\<rparr>)\<rparr>
              in if \<not> success then (False, close_connection s1 c) else (True, s1))))"

text \<open>The equations of the functions above are applied where a proof asks for them.\<close>

declare string_of_nat.simps [simp del] lstrip.simps [simp del] rstrip.simps [simp del]
  close_connection.simps [simp del] send_message.simps [simp del]

section \<open>game.py\<close>

text \<open>
  A game object: the attributes the base class \<open>Game\<close> declares and the state a subclass
  adds. The frame queue a game shares with the manager is the manager's: a hook returns
  the frames it appends.
\<close>

record 'g game =
  player_count :: nat
  player_names :: "string list"
  state :: 'g

text \<open>
  A hook of the game contract, applied to the game object: the frames it appended to the
  frame queue, the object afterwards, and the exception it raised or the value it
  returned.
\<close>

type_synonym ('g, 'a) hook = "'g game \<Rightarrow> string list \<times> 'g game \<times> (error + 'a)"

text \<open>
  A subclass of \<open>Game\<close>: its constructor and its methods (\<open>game_start_cooldown\<close> is the
  method \<open>start_cooldown\<close>).
\<close>

record 'g game_type =
  new_game :: 'g
  get_game_name :: "'g game \<Rightarrow> string"
  setup_game :: "('g, unit) hook"
  prepare_round :: "nat \<Rightarrow> ('g, unit) hook"
  get_player_input :: "nat \<Rightarrow> nat \<Rightarrow> ('g, string option) hook"
  on_player_output :: "nat \<Rightarrow> nat \<Rightarrow> string option \<Rightarrow> ('g, unit) hook"
  handle_player_output :: "nat \<Rightarrow> nat \<Rightarrow> string option \<Rightarrow> ('g, unit) hook"
  update_game :: "nat \<Rightarrow> ('g, unit) hook"
  on_game_over :: "('g, unit) hook"
  get_visualizer_data :: "'g game \<Rightarrow> error + string option"
  min_connections :: "'g game \<Rightarrow> int"
  max_connections :: "'g game \<Rightarrow> int"
  game_start_cooldown :: "'g game \<Rightarrow> int"

text \<open>\<open>Game.__init__\<close>, run by \<open>self.game_type(self.game_frame_queue)\<close>.\<close>

definition construct :: "'g game_type \<Rightarrow> 'g game" where
  "construct gt = \<lparr>player_count = 0, player_names = [], state = new_game gt\<rparr>"

section \<open>game_manager.py\<close>

text \<open>The calls of the hooks, in the order they were made: a record kept beside the
  program's state to state how often and in which order it calls the game.\<close>

datatype call =
    Call_setup_game
  | Call_prepare_round nat
  | Call_get_player_input nat nat
  | Call_on_player_output nat nat "string option"
  | Call_handle_player_output nat nat "string option"
  | Call_update_game nat
  | Call_on_game_over

text \<open>
  The manager. \<open>files\<close> are the replay files by name, each with the lines written to it.
\<close>

record 'g game_manager =
  server :: server
  game_type :: "'g game_type"
  game :: "'g game option"
  players :: "nat list"
  visualize_queue :: "string list"
  game_frame_queue :: "string list"
  visualizer_file_name :: string
  files :: "(string \<times> string list) list"
  start_cooldown :: int
  game_name :: string
  calls :: "call list"

text \<open>
  \<open>await self.game.hook(...)\<close>: the hook runs on the game object, which is \<open>None\<close> between
  two sessions.
\<close>

definition invoke ::
  "call \<Rightarrow> ('g, 'a) hook \<Rightarrow> 'g game_manager \<Rightarrow> (error + 'a) \<times> 'g game_manager" where
  "invoke c h gm =
     (case game gm of
        None \<Rightarrow> (Inl AttributeError, gm)
      | Some g \<Rightarrow>
          (case h g of
             (frames, g', r) \<Rightarrow>
               (r, gm\<lparr>game := Some g',
                      game_frame_queue := game_frame_queue gm @ frames,
                      calls := calls gm @ [c]\<rparr>)))"

definition reset_start_cooldown :: "'g game_manager \<Rightarrow> (error + unit) \<times> 'g game_manager" where
  "reset_start_cooldown gm =
     (case game gm of
        None \<Rightarrow> (Inl AttributeError, gm)
      | Some g \<Rightarrow> (Inr (), gm\<lparr>start_cooldown := game_start_cooldown (game_type gm) g\<rparr>))"

subsection \<open>Frames\<close>

text \<open>\<open>data.replace(old, new)\<close> for a pattern \<open>old\<close> that is not empty.\<close>

function replace :: "string \<Rightarrow> string \<Rightarrow> string \<Rightarrow> string" where
  "replace old new [] = []"
| "replace old new (c # cs) =
     (if old \<noteq> [] \<and> prefix old (c # cs)
      then new @ replace old new (drop (length old) (c # cs))
      else c # replace old new cs)"
  by pat_completeness auto
termination
  by (relation "measure (\<lambda>(old, new, s). length s)") auto

definition substitute_players :: "'g game_manager \<Rightarrow> string \<Rightarrow> string" where
  "substitute_players gm data =
     foldl (\<lambda>d (index, conn).
              replace (''@p'' @ string_of_nat index @ ''!'') (name (heap (server gm) conn)) d)
       data (enumerate 0 (players gm))"

definition visualize :: "'g game_manager \<Rightarrow> string \<Rightarrow> bool \<Rightarrow> bool \<Rightarrow> 'g game_manager" where
  "visualize gm data keyframe write_to_file =
     (let data' = (if keyframe then ''KEYFRAME '' else ''FRAME '') @ substitute_players gm data;
          gm1 = gm\<lparr>visualize_queue := visualize_queue gm @ [data']\<rparr>
      in if write_to_file then
           gm1\<lparr>files :=
                 AList.update (visualizer_file_name gm1)
                   ((case map_of (files gm1) (visualizer_file_name gm1) of
                       None \<Rightarrow> [] | Some written \<Rightarrow> written) @ [data'])
                   (files gm1)\<rparr>
         else gm1)"

definition handle_game_frame_queue :: "'g game_manager \<Rightarrow> 'g game_manager" where
  "handle_game_frame_queue gm =
     foldl (\<lambda>g game_frame. visualize g game_frame False True)
       (gm\<lparr>game_frame_queue := []\<rparr>) (game_frame_queue gm)"

definition visualize_round :: "'g game_manager \<Rightarrow> (error + unit) \<times> 'g game_manager" where
  "visualize_round gm =
     (let gm1 = handle_game_frame_queue gm in
      case game gm1 of
        None \<Rightarrow> (Inl AttributeError, gm1)
      | Some g \<Rightarrow>
          (case get_visualizer_data (game_type gm1) g of
             Inl e \<Rightarrow> (Inl e, gm1)
           | Inr None \<Rightarrow> (Inr (), gm1)
           | Inr (Some visualizer_data) \<Rightarrow>
               if visualizer_data \<noteq> [] then (Inr (), visualize gm1 visualizer_data True True)
               else (Inr (), gm1)))"

subsection \<open>The connection queues\<close>

text \<open>The two loops of \<open>handle_connection_queues\<close>, each over what its queue holds.\<close>

fun drain_connection_queue ::
  "nat list \<Rightarrow> 'g game_manager \<Rightarrow> (error + unit) \<times> 'g game_manager" where
  "drain_connection_queue [] gm = (Inr (), gm)"
| "drain_connection_queue (connection # rest) gm =
     (case reset_start_cooldown (gm\<lparr>server := (server gm)\<lparr>connection_queue := rest\<rparr>\<rparr>) of
        (Inl e, gm1) \<Rightarrow> (Inl e, gm1)
      | (Inr u, gm1) \<Rightarrow> drain_connection_queue rest gm1)"

fun drain_disconnection_queue ::
  "nat list \<Rightarrow> 'g game_manager \<Rightarrow> (error + unit) \<times> 'g game_manager" where
  "drain_disconnection_queue [] gm = (Inr (), gm)"
| "drain_disconnection_queue (connection # rest) gm =
     (case reset_start_cooldown (gm\<lparr>server := (server gm)\<lparr>disconnection_queue := rest\<rparr>\<rparr>) of
        (Inl e, gm1) \<Rightarrow> (Inl e, gm1)
      | (Inr u, gm1) \<Rightarrow>
          if game gm1 \<noteq> None \<and> connection \<in> set (players gm1) then
            (Inl (PlayerDisconnectedError
                   (''Player '' @ name (heap (server gm1) connection) @
                    '' disconnected during game'')), gm1)
          else drain_disconnection_queue rest gm1)"

definition handle_connection_queues ::
  "'g game_manager \<Rightarrow> (error + unit) \<times> 'g game_manager" where
  "handle_connection_queues gm =
     (case drain_connection_queue (connection_queue (server gm)) gm of
        (Inl e, gm1) \<Rightarrow> (Inl e, gm1)
      | (Inr u, gm1) \<Rightarrow> drain_disconnection_queue (disconnection_queue (server gm1)) gm1)"

subsection \<open>The fan-out of a round\<close>

text \<open>
  The first loop of \<open>get_player_outputs\<close>: every player is asked for its prompt, and a
  response task is created for each prompt that is not empty. The result is
  \<open>response_indicies\<close>, with the connection and the prompt of each task.
\<close>

fun prompt_players ::
  "nat \<Rightarrow> nat \<Rightarrow> nat list \<Rightarrow> (nat \<times> nat \<times> string) list \<Rightarrow> 'g game_manager \<Rightarrow>
   (error + (nat \<times> nat \<times> string) list) \<times> 'g game_manager" where
  "prompt_players round index [] tasks gm = (Inr tasks, gm)"
| "prompt_players round index (connection # rest) tasks gm =
     (case invoke (Call_get_player_input round index)
             (get_player_input (game_type gm) round index) gm of
        (Inl e, gm1) \<Rightarrow> (Inl e, gm1)
      | (Inr None, gm1) \<Rightarrow>
          prompt_players round (Suc index) rest tasks (handle_game_frame_queue gm1)
      | (Inr (Some round_input), gm1) \<Rightarrow>
          if round_input = [] then
            prompt_players round (Suc index) rest tasks (handle_game_frame_queue gm1)
          else
            prompt_players round (Suc index) rest
              (tasks @ [(index, connection, round_input)]) (handle_game_frame_queue gm1))"

text \<open>
  A response task that completed, as \<open>asyncio.wait\<close> hands it over: the roster index of
  its player (\<open>task_map[response]\<close>), its result (\<open>response.result()\<close>, which raises what
  the task raised), and the connections the server's tasks appended to the two queues
  while the manager was waiting.
\<close>

record arrival =
  player :: nat
  result :: "error + string option"
  connected :: "nat list"
  disconnected :: "nat list"

definition while_waiting :: "arrival \<Rightarrow> 'g game_manager \<Rightarrow> 'g game_manager" where
  "while_waiting a gm =
     gm\<lparr>server := (server gm)
           \<lparr>connection_queue := connection_queue (server gm) @ connected a,
            disconnection_queue := disconnection_queue (server gm) @ disconnected a\<rparr>\<rparr>"

text \<open>
  The second loop, \<open>while response_tasks\<close>: \<open>pending\<close> are the roster indices of the tasks
  that have not completed, \<open>arrivals\<close> the tasks in the order they complete (a task that
  is not pending cannot complete). The responses are stored by roster index in a list
  that has one place for each task. When tasks are pending and none of them ever
  completes, \<open>asyncio.wait\<close> does not return: the result is \<open>None\<close>.
\<close>

fun collect_responses ::
  "nat \<Rightarrow> arrival list \<Rightarrow> nat list \<Rightarrow> string option list \<Rightarrow> nat \<Rightarrow> 'g game_manager \<Rightarrow>
   ((error + string option list \<times> nat) \<times> 'g game_manager) option" where
  "collect_responses round arrivals [] responses responded gm =
     Some (Inr (responses, responded), gm)"
| "collect_responses round [] (t # pending) responses responded gm = None"
| "collect_responses round (a # rest) (t # pending) responses responded gm =
     (if player a \<notin> set (t # pending) then
        collect_responses round rest (t # pending) responses responded gm
      else
        (case result a of
           Inl e \<Rightarrow> Some (Inl e, while_waiting a gm)
         | Inr r \<Rightarrow>
             if length responses \<le> player a then Some (Inl IndexError, while_waiting a gm)
             else
               (case invoke (Call_on_player_output round (player a) r)
                       (on_player_output (game_type gm) round (player a) r)
                       (while_waiting a gm) of
                  (Inl e, gm1) \<Rightarrow> Some (Inl e, gm1)
                | (Inr u, gm1) \<Rightarrow>
                    collect_responses round rest (remove1 (player a) (t # pending))
                      (responses[player a := r]) (Suc responded)
                      (handle_game_frame_queue gm1))))"

text \<open>The rest of \<open>get_player_outputs\<close>, after the responses were collected.\<close>

definition check_responses ::
  "nat \<Rightarrow> (nat \<times> nat \<times> string) list \<Rightarrow> string option list \<Rightarrow> nat \<Rightarrow> 'g game_manager \<Rightarrow>
   (error + (nat \<times> string option) list) \<times> 'g game_manager" where
  "check_responses round tasks responses responded gm =
     (if responded \<noteq> length tasks then
        (Inl (RuntimeError
               (''Did not get all responses on round '' @ string_of_nat round @
                ''. Expected '' @ string_of_nat (length tasks) @
                ''. Recieved '' @ string_of_nat responded)), gm)
      else
        (case handle_connection_queues gm of
           (Inl e, gm1) \<Rightarrow> (Inl e, gm1)
         | (Inr u, gm1) \<Rightarrow> (Inr (zip (map fst tasks) responses), gm1)))"

definition get_player_outputs ::
  "nat \<Rightarrow> arrival list \<Rightarrow> 'g game_manager \<Rightarrow>
   ((error + (nat \<times> string option) list) \<times> 'g game_manager) option" where
  "get_player_outputs round arrivals gm =
     (case prompt_players round 0 (players gm) [] gm of
        (Inl e, gm1) \<Rightarrow> Some (Inl e, gm1)
      | (Inr tasks, gm1) \<Rightarrow>
          if tasks = [] then Some (Inl (RuntimeError ''No player inputs were returned''), gm1)
          else
            (case collect_responses round arrivals (map fst tasks)
                    (replicate (length tasks) None) 0 gm1 of
               None \<Rightarrow> None
             | Some (Inl e, gm2) \<Rightarrow> Some (Inl e, gm2)
             | Some (Inr (responses, responded), gm2) \<Rightarrow>
                 Some (check_responses round tasks responses responded gm2)))"

subsection \<open>A session\<close>

text \<open>The loop \<open>for index, output in player_outputs\<close> of \<open>play_game\<close>.\<close>

fun handle_player_outputs ::
  "nat \<Rightarrow> (nat \<times> string option) list \<Rightarrow> 'g game_manager \<Rightarrow>
   (error + unit) \<times> 'g game_manager" where
  "handle_player_outputs round [] gm = (Inr (), gm)"
| "handle_player_outputs round ((index, output) # rest) gm =
     (case invoke (Call_handle_player_output round index output)
             (handle_player_output (game_type gm) round index output) gm of
        (Inl e, gm1) \<Rightarrow> (Inl e, gm1)
      | (Inr u, gm1) \<Rightarrow> handle_player_outputs round rest (handle_game_frame_queue gm1))"

text \<open>One round of the loop of \<open>play_game\<close> (lines 170 to 189), in two halves.\<close>

definition finish_round ::
  "nat \<Rightarrow> (nat \<times> string option) list \<Rightarrow> 'g game_manager \<Rightarrow>
   (error + unit) \<times> 'g game_manager" where
  "finish_round round player_outputs gm =
     (case handle_player_outputs round player_outputs gm of
        (Inl e, gm1) \<Rightarrow> (Inl e, gm1)
      | (Inr u, gm1) \<Rightarrow>
          (case invoke (Call_update_game round) (update_game (game_type gm1) round) gm1 of
             (Inl e, gm2) \<Rightarrow> (Inl e, gm2)
           | (Inr u, gm2) \<Rightarrow> visualize_round gm2))"

definition play_round ::
  "nat \<Rightarrow> arrival list \<Rightarrow> 'g game_manager \<Rightarrow> ((error + unit) \<times> 'g game_manager) option" where
  "play_round round arrivals gm =
     (case invoke (Call_prepare_round round) (prepare_round (game_type gm) round) gm of
        (Inl e, gm1) \<Rightarrow> Some (Inl e, gm1)
      | (Inr u, gm1) \<Rightarrow>
          (case get_player_outputs round arrivals (handle_game_frame_queue gm1) of
             None \<Rightarrow> None
           | Some (Inl e, gm2) \<Rightarrow> Some (Inl e, gm2)
           | Some (Inr player_outputs, gm2) \<Rightarrow> Some (finish_round round player_outputs gm2)))"

text \<open>
  The loop \<open>while True\<close> of \<open>play_game\<close> ends only with an exception; a game that never
  raises is played for ever, and a round whose responses never complete does not end.
  \<open>arrivals\<close> gives, for each round, the responses that complete in it.
\<close>

partial_function (option) play_rounds ::
  "(nat \<Rightarrow> arrival list) \<Rightarrow> nat \<Rightarrow> 'g game_manager \<Rightarrow> (error \<times> 'g game_manager) option" where
  "play_rounds arrivals round gm =
     (case play_round round (arrivals round) gm of
        None \<Rightarrow> None
      | Some (Inl e, gm1) \<Rightarrow> Some (e, gm1)
      | Some (Inr u, gm1) \<Rightarrow> play_rounds arrivals (Suc round) gm1)"

declare play_rounds.simps [code]

text \<open>The body of the \<open>try\<close> of \<open>play_game\<close>, and the exception that ends it.\<close>

definition bind_players :: "'g game_manager \<Rightarrow> (error + unit) \<times> 'g game_manager" where
  "bind_players gm =
     (case game gm of
        None \<Rightarrow> (Inl AttributeError, gm)
      | Some g \<Rightarrow>
          (Inr (),
           gm\<lparr>game := Some (g\<lparr>player_count := length (players gm),
                               player_names := map (\<lambda>conn. name (heap (server gm) conn))
                                                 (players gm)\<rparr>)\<rparr>))"

definition try_play :: "(nat \<Rightarrow> arrival list) \<Rightarrow> 'g game_manager \<Rightarrow> (error \<times> 'g game_manager) option" where
  "try_play arrivals gm =
     (case bind_players gm of
        (Inl e, gm1) \<Rightarrow> Some (e, gm1)
      | (Inr u, gm1) \<Rightarrow>
          (case invoke Call_setup_game (setup_game (game_type gm1)) gm1 of
             (Inl e, gm2) \<Rightarrow> Some (e, gm2)
           | (Inr u, gm2) \<Rightarrow> play_rounds arrivals 0 (handle_game_frame_queue gm2)))"

text \<open>The two \<open>except\<close> clauses of \<open>play_game\<close>.\<close>

fun caught :: "error \<Rightarrow> bool" where
  "caught (PlayerDisconnectedError _) = True"
| "caught (GameOverError _) = True"
| "caught _ = False"

text \<open>The code after the \<open>try\<close> statement (lines 197 to 201).\<close>

definition end_game :: "'g game_manager \<Rightarrow> (error + unit) \<times> 'g game_manager" where
  "end_game gm =
     (case visualize_round gm of
        (Inl e, gm1) \<Rightarrow> (Inl e, gm1)
      | (Inr u, gm1) \<Rightarrow>
          (case invoke Call_on_game_over (on_game_over (game_type gm1)) gm1 of
             (Inl e, gm2) \<Rightarrow> (Inl e, gm2)
           | (Inr u, gm2) \<Rightarrow> (Inr (), handle_game_frame_queue gm2)))"

definition play_game ::
  "(nat \<Rightarrow> arrival list) \<Rightarrow> 'g game_manager \<Rightarrow> ((error + unit) \<times> 'g game_manager) option" where
  "play_game arrivals gm =
     (case try_play arrivals gm of
        None \<Rightarrow> None
      | Some (e, gm1) \<Rightarrow> if caught e then Some (end_game gm1) else Some (Inl e, gm1))"

text \<open>
  \<open>create_visualizer_file\<close> names the replay file after the game and the time of day and
  creates it empty; the name it settles on is a parameter here.
\<close>

definition create_visualizer_file :: "string \<Rightarrow> 'g game_manager \<Rightarrow> 'g game_manager" where
  "create_visualizer_file file_name gm =
     gm\<lparr>files := AList.update file_name [] (files gm), visualizer_file_name := file_name\<rparr>"

text \<open>
  One turn of the loop of \<open>game_loop\<close>, from the players that \<open>wait_for_connections\<close>
  returned (it polls the server once a second and picks them at random: it is not part
  of this development) to the new game object. An exception ends the loop and the task.
\<close>

definition new_session :: "string \<Rightarrow> 'g game_manager \<Rightarrow> (error + unit) \<times> 'g game_manager" where
  "new_session file_name gm =
     (let gm1 = gm\<lparr>game := None, players := []\<rparr> in
      if game_frame_queue gm1 \<noteq> [] then
        (Inl (RuntimeError ''Game frame queue was not empty before initializing the new game''),
         gm1)
      else
        (let g = construct (game_type gm1);
             gm2 = gm1\<lparr>game := Some g\<rparr>
         in if game_name gm2 \<noteq> get_game_name (game_type gm2) g then
              (Inl (RuntimeError
                     (''Game cannot change names. Original: '' @ game_name gm2 @ '', New: '' @
                      get_game_name (game_type gm2) g)), gm2)
            else (Inr (), create_visualizer_file file_name gm2)))"

definition game_loop ::
  "nat list \<Rightarrow> (nat \<Rightarrow> arrival list) \<Rightarrow> string \<Rightarrow> 'g game_manager \<Rightarrow>
   ((error + unit) \<times> 'g game_manager) option" where
  "game_loop waiting arrivals file_name gm =
     (case play_game arrivals (gm\<lparr>players := waiting\<rparr>) of
        None \<Rightarrow> None
      | Some (Inl e, gm1) \<Rightarrow> Some (Inl e, gm1)
      | Some (Inr u, gm1) \<Rightarrow> Some (new_session file_name gm1))"

subsection \<open>The manager at the start, and a game to play\<close>

text \<open>\<open>GameManager.__init__\<close>, and the part of \<open>start\<close> that constructs the first game.\<close>

definition GameManager :: "server \<Rightarrow> 'g game_type \<Rightarrow> 'g game_manager" where
  "GameManager srv gt =
     \<lparr>server = srv, game_type = gt, game = None, players = [], visualize_queue = [],
      game_frame_queue = [], visualizer_file_name = [], files = [], start_cooldown = 0,
      game_name = [], calls = []\<rparr>"

definition start :: "string \<Rightarrow> 'g game_manager \<Rightarrow> 'g game_manager" where
  "start file_name gm =
     (let g = construct (game_type gm) in
      create_visualizer_file file_name
        (gm\<lparr>game := Some g, game_name := get_game_name (game_type gm) g\<rparr>))"

text \<open>
  A game in the manner of \<open>RockPaperScissorsGame\<close>, cut down: \<open>setup_game\<close> raises
  \<open>RuntimeError\<close> unless the session has the expected number of players, every hook emits
  the frame its model emits, the moves are kept per player, and \<open>update_game\<close> ends the
  game with \<open>GameOverError\<close> in the round \<open>last_round\<close>. \<open>prompted\<close> says which players are
  asked for a move.
\<close>

definition example_game ::
  "nat \<Rightarrow> (nat \<Rightarrow> bool) \<Rightarrow> nat \<Rightarrow> (string option list) game_type" where
  "example_game expected prompted last_round =
     \<lparr>new_game = [],
      get_game_name = (\<lambda>g. ''Rock Paper Scissors''),
      setup_game = (\<lambda>g.
        if player_count g \<noteq> expected then
          ([], g, Inl (RuntimeError
                        (''Unexpected player count: '' @ string_of_nat (player_count g))))
        else ([], g\<lparr>state := replicate (player_count g) None\<rparr>, Inr ())),
      prepare_round = (\<lambda>round g. ([''Waiting for responses''], g, Inr ())),
      get_player_input = (\<lambda>round index g.
        ([], g, Inr (if prompted index then Some ''Rock, Paper, or Scissors?'' else None))),
      on_player_output = (\<lambda>round index output g.
        ([''@p'' @ string_of_nat index @ ''! Locked in''], g, Inr ())),
      handle_player_output = (\<lambda>round index output g.
        ([], g\<lparr>state := (state g)[index := output]\<rparr>, Inr ())),
      update_game = (\<lambda>round g.
        if last_round \<le> round then
          ([''Revealing choices''], g, Inl (GameOverError ''Player 0 wins''))
        else ([''Revealing choices''], g, Inr ())),
      on_game_over = (\<lambda>g. ([''Game over.''], g, Inr ())),
      get_visualizer_data = (\<lambda>g. Inr (Some ''{}'')),
      min_connections = (\<lambda>g. 2),
      max_connections = (\<lambda>g. 2),
      game_start_cooldown = (\<lambda>g. 1)\<rparr>"

text \<open>Three registered players whose connection events were already handled.\<close>

definition lobby :: server where
  "lobby =
     (register (register (register Server 0 ''alice'') 1 ''bob'') 2 ''carol'')
       \<lparr>connection_queue := []\<rparr>"

text \<open>A response that completes with the line \<open>move\<close> while nothing else happens.\<close>

definition answers :: "nat \<Rightarrow> string \<Rightarrow> arrival" where
  "answers index move =
     \<lparr>player = index, result = Inr (Some move), connected = [], disconnected = []\<rparr>"

text \<open>The player's connection was closed while the manager waited: there is no line,
  and the server appended the connection to the disconnection queue.\<close>

definition leaves :: "nat \<Rightarrow> nat \<Rightarrow> arrival" where
  "leaves index connection =
     \<lparr>player = index, result = Inr None, connected = [], disconnected = [connection]\<rparr>"

section \<open>Notions used in the statements\<close>

text \<open>Names made of alphanumeric characters and underscores.\<close>

definition name_chars :: "string \<Rightarrow> bool" where
  "name_chars s = (\<forall>c\<in>set s. is_alnum c \<or> c = CHR ''_'')"

text \<open>The number of calls of \<open>on_game_over\<close> made so far.\<close>

definition game_overs :: "'g game_manager \<Rightarrow> nat" where
  "game_overs gm = count_list (calls gm) Call_on_game_over"

text \<open>Between two states: the same game type and players, and no further call of
  \<open>on_game_over\<close>.\<close>

definition kept :: "'g game_manager \<Rightarrow> 'g game_manager \<Rightarrow> bool" where
  "kept gm gm' =
     (game_type gm' = game_type gm \<and> players gm' = players gm \<and> game_overs gm' = game_overs gm)"

section \<open>Sessions and connections used as examples\<close>

text \<open>
  A client that says \<open>HELLO\<close> and gives the name \<open>alice\<close>, on a transport where the first
  write succeeds and the second fails with a broken pipe.
\<close>

definition alice :: server where
  "alice =
     (case handle_connection Server 0 (''10.0.0.7'', 5010)
             [Chunk (''HELLO'' @ [LF] @ ''alice'' @ [LF])]
             \<lparr>closing = False, sent = [], faults = [Written, WriteBrokenPipe True]\<rparr> of
        Some (r, s) \<Rightarrow> s
      | None \<Rightarrow> Server)"


text \<open>
  A manager that has constructed its first game, a two-player game that ends in its
  second round, over a lobby of three registered players.
\<close>

definition rps :: "string option list game_manager" where
  "rps = start ''games/game.txt'' (GameManager lobby (example_game 2 (\<lambda>i. True) 1))"

text \<open>In every round the second player answers before the first.\<close>

definition moves :: "nat \<Rightarrow> arrival list" where
  "moves round = [answers 1 ''Rock'', answers 0 ''Paper'']"

text \<open>The first player's connection is closed while the round waits for it.\<close>

definition first_leaves :: "nat \<Rightarrow> arrival list" where
  "first_leaves round = [answers 1 ''Rock'', leaves 0 0]"


definition trio_without_second :: "string option list game_manager" where
  "trio_without_second =
     (start ''games/game.txt'' (GameManager lobby (example_game 3 (\<lambda>i. i \<noteq> 1) 1)))
       \<lparr>players := [0, 1, 2]\<rparr>"

text \<open>
  A server after one client said \<open>HELLO\<close> and closed its side before giving a name, and a
  manager over that server.
\<close>

definition hung_up :: server where
  "hung_up =
     (case handle_connection Server 0 (''10.0.0.7'', 5010) [Chunk (''HELLO'' @ [LF])]
             new_writer of
        Some (r, s) \<Rightarrow> s
      | None \<Rightarrow> Server)"

definition waiting_room :: "string option list game_manager" where
  "waiting_room = start ''games/game.txt'' (GameManager hung_up (example_game 2 (\<lambda>i. True) 1))"

section \<open>Verification of streams_util.py\<close>

subsection \<open>Decoding and delimiters\<close>

lemma valid_utf8_Nil: "valid_utf8 []"
  by (simp add: valid_utf8_def)

lemma valid_utf8_append: "valid_utf8 a \<Longrightarrow> valid_utf8 b \<Longrightarrow> valid_utf8 (a @ b)"
  by (simp add: valid_utf8_def)



lemma valid_utf8_concat: "\<forall>c\<in>set cs. valid_utf8 c \<Longrightarrow> valid_utf8 (concat cs)"
  by (induction cs) (simp_all add: valid_utf8_Nil valid_utf8_append)

lemma split_once_None: "split_once eol s = None \<longleftrightarrow> \<not> sublist eol s"
  by (induction s) (auto simp: sublist_Cons_right)


lemma split_eol_no_LF: "LF \<notin> set m \<Longrightarrow> split_eol eols m = None"
proof -
  assume a: "LF \<notin> set m"
  have "\<not> sublist [CR, LF] m" "\<not> sublist [LF] m"
    using a set_mono_sublist by fastforce+
  then have "split_once [CR, LF] m = None" "split_once [LF] m = None"
    by (simp_all add: split_once_None)
  then show ?thesis
    by (simp add: eols_def)
qed














lemma read_loop_stuck:
  assumes "read_loop data buf rdr = Some y"
  shows "\<not> (rdr = [] \<and> data \<noteq> [] \<and> valid_utf8 data \<and> split_eol eols data = None)"
proof (rule read_loop.raw_induct
    [where P = "\<lambda>d b r y. \<not> (r = [] \<and> d \<noteq> [] \<and> valid_utf8 d \<and> split_eol eols d = None)",
     OF _ assms])
  fix f d b r z
  assume IH: "\<And>d b r z. f d b r = Some z \<Longrightarrow>
              \<not> (r = [] \<and> d \<noteq> [] \<and> valid_utf8 d \<and> split_eol eols d = None)"
    and step: "(case read r of
        (Chunk bytes, rdr') \<Rightarrow>
          if d @ bytes = [] then Some (after_loop (d @ bytes), b, rdr')
          else case decode (d @ bytes) of
               Inl e \<Rightarrow> Some (Inl e, b, rdr')
             | Inr message \<Rightarrow>
                 (case split_eol eols message of
                    None \<Rightarrow> f (d @ bytes) b rdr'
                  | Some (line, extra) \<Rightarrow>
                      Some (Inr (Some line), if extra \<noteq> [] then b @ [extra] else b, rdr'))
      | (Reset, rdr') \<Rightarrow> Some (after_loop d, b, rdr')) = Some z"
  show "\<not> (r = [] \<and> d \<noteq> [] \<and> valid_utf8 d \<and> split_eol eols d = None)"
  proof
    assume a: "r = [] \<and> d \<noteq> [] \<and> valid_utf8 d \<and> split_eol eols d = None"
    with step have "f d b [] = Some z"
      by (simp add: read_def decode_def)
    from IH[OF this] a show False by simp
  qed
qed

lemma read_loop_at_eof:
  "data \<noteq> [] \<Longrightarrow> valid_utf8 data \<Longrightarrow> LF \<notin> set data \<Longrightarrow> read_loop data buf [] = None"
  using read_loop_stuck[of data buf "[]"] split_eol_no_LF[of data]
  by (cases "read_loop data buf []") auto


subsection \<open>Claims about readline and writeline\<close>




text \<open>
  C3 fails on the code. The stream delivers \<open>abc\<close> and ends: the loop condition
  \<open>data := data + await rdr.read(100)\<close> stays true once \<open>data\<close> is not empty, so at the end
  of the stream \<open>readline\<close> reads \<open>b''\<close> for ever and never returns, whether the partial
  message came from the stream or from the buffer.
\<close>

theorem readline_partial_message_at_eof_never_returns:
  "readline [Chunk ''abc''] [] = None \<and> readline [] [''abc''] = None"
proof -
  have v: "valid_utf8 ''abc''"
    by (simp add: valid_utf8_def in_range_def)
  have s: "split_eol eols ''abc'' = None"
    by (simp add: eols_def)
  have stuck: "read_loop ''abc'' [] [] = None"
    by (rule read_loop_at_eof) (simp_all add: v)
  have "read_loop [] [] [Chunk ''abc''] = read_loop ''abc'' [] []"
    using v s by (subst read_loop.simps) (simp add: read_def decode_def)
  with stuck show ?thesis
    using s by (simp add: readline_def encode_def)
qed

section \<open>Verification of server.py\<close>

subsection \<open>Names\<close>


lemma re_sub_starts_alnum:
  "xs = [] \<or> is_alnum (hd xs) \<Longrightarrow> dropWhile (\<lambda>x. \<not> is_alnum x) (re_sub xs) = re_sub xs"
  by (cases xs) auto

lemma re_sub_head: "dropWhile (\<lambda>x. \<not> is_alnum x) (re_sub (dropWhile (\<lambda>x. \<not> is_alnum x) cs)) = re_sub (dropWhile (\<lambda>x. \<not> is_alnum x) cs)"
proof (rule re_sub_starts_alnum)
  show "dropWhile (\<lambda>x. \<not> is_alnum x) cs = [] \<or> is_alnum (hd (dropWhile (\<lambda>x. \<not> is_alnum x) cs))"
    using hd_dropWhile[of "\<lambda>x. \<not> is_alnum x" cs] by blast
qed

lemma re_sub_idem: "re_sub (re_sub s) = re_sub s"
proof (induction s rule: re_sub.induct)
  case 1
  then show ?case by simp
next
  case (2 c cs)
  show ?case
  proof (cases "is_alnum c")
    case True
    with 2 show ?thesis by simp
  next
    case False
    have "\<not> is_alnum CHR ''_''"
      by (simp add: is_alnum_def in_range_def)
    with False 2 show ?thesis
      by (simp add: re_sub_head)
  qed
qed


lemma whitespace_first: "w \<in> set whitespace \<Longrightarrow> \<not> is_alnum (hd w) \<and> hd w \<noteq> CHR ''_''"
  by (auto simp: whitespace_def is_alnum_def in_range_def)

lemma whitespace_last: "w \<in> set whitespace \<Longrightarrow> \<not> is_alnum (last w) \<and> last w \<noteq> CHR ''_''"
  by (auto simp: whitespace_def is_alnum_def in_range_def)

lemma re_sub_name_chars: "name_chars (re_sub s)"
  by (induction s rule: re_sub.induct) (auto simp: name_chars_def)

lemma lstrip_name_chars: "name_chars s \<Longrightarrow> lstrip s = s"
proof -
  assume a: "name_chars s"
  have "\<not> (\<exists>w. w \<in> set whitespace \<and> prefix w s)"
  proof
    assume "\<exists>w. w \<in> set whitespace \<and> prefix w s"
    then obtain w where "w \<in> set whitespace" "prefix w s"
      by blast
    then have "w \<noteq> []" "hd w \<in> set s" "\<not> is_alnum (hd w) \<and> hd w \<noteq> CHR ''_''"
      using whitespace_nonempty[of w] whitespace_first[of w]
      by (auto simp: prefix_def)
    with a show False by (auto simp: name_chars_def)
  qed
  then have "find (\<lambda>w. prefix w s) whitespace = None"
    by (simp add: find_None_iff)
  then show ?thesis by (subst lstrip.simps) simp
qed

lemma rstrip_name_chars: "name_chars s \<Longrightarrow> rstrip s = s"
proof -
  assume a: "name_chars s"
  have "\<not> (\<exists>w. w \<in> set whitespace \<and> suffix w s)"
  proof
    assume "\<exists>w. w \<in> set whitespace \<and> suffix w s"
    then obtain w where "w \<in> set whitespace" "suffix w s"
      by blast
    then have "w \<noteq> []" "last w \<in> set s" "\<not> is_alnum (last w) \<and> last w \<noteq> CHR ''_''"
      using whitespace_nonempty[of w] whitespace_last[of w]
      by (auto simp: suffix_def)
    with a show False by (auto simp: name_chars_def)
  qed
  then have "find (\<lambda>w. suffix w s) whitespace = None"
    by (simp add: find_None_iff)
  then show ?thesis by (subst rstrip.simps) simp
qed

lemma normalize_idem: "normalize_name (normalize_name s) = normalize_name s"
  by (simp add: normalize_name_def strip_def lstrip_name_chars rstrip_name_chars re_sub_name_chars re_sub_idem)







text \<open>
  C8: normalizing a name (\<open>strip\<close>, then every run of characters that are not
  alphanumeric replaced by one underscore) and normalizing the result again gives the
  same name as normalizing once.
\<close>

theorem normalize_idempotent:
  "normalize_name (normalize_name requested) = normalize_name requested \<and>
   re_sub (strip (re_sub (strip requested))) = re_sub (strip requested)"
  using normalize_idem[of requested] by (simp add: normalize_name_def)

subsection \<open>Attributes\<close>

lemma increment_attribute_map:
  "map_of (attributes (increment_attribute conn a amount)) =
     (map_of (attributes conn))(a \<mapsto> (case map_of (attributes conn) a of None \<Rightarrow> 1 | Some v \<Rightarrow> v + 1))"
  by (auto simp: increment_attribute_def Let_def map_of_map_entry update_conv' split: option.splits)


text \<open>
  C10: \<open>increment_attribute\<close> adds exactly 1 to the named counter whatever \<open>amount\<close> is:
  an attribute that was absent is 1 afterwards, one that was present is one greater, and
  no other attribute and no other field of the connection changes.
\<close>

theorem increment_attribute_adds_one:
  "map_of (attributes (increment_attribute conn attribute amount)) =
     (map_of (attributes conn))
       (attribute \<mapsto> (case map_of (attributes conn) attribute of None \<Rightarrow> 1 | Some v \<Rightarrow> v + 1)) \<and>
   increment_attribute conn attribute amount = increment_attribute conn attribute 1 \<and>
   increment_attribute conn attribute amount =
     conn\<lparr>attributes := attributes (increment_attribute conn attribute amount)\<rparr>"
  using increment_attribute_map[of conn attribute amount]
  by (simp add: increment_attribute_def Let_def)

subsection \<open>Closing a connection\<close>

lemma unregister_queue:
  "disconnection_queue (unregister s c) = disconnection_queue s @ [c]"
  by (simp add: unregister_def Let_def)

lemma unregister_connection_queue:
  "connection_queue (unregister s c) = connection_queue s"
  by (simp add: unregister_def Let_def)

lemma write_message_queue:
  "disconnection_queue (snd (write_message s c m)) = disconnection_queue s"
  by (simp add: write_message_def Let_def)

lemma close_connection_closed:
  "is_closed (heap s c) \<Longrightarrow> close_connection s c = unregister s c"
  by (simp add: close_connection.simps)

lemma write_message_closed:
  "is_closed (heap s c) \<Longrightarrow> write_message s c m = (False, s)"
  by (simp add: write_message_def Let_def writeline_def is_closed_def)

lemma send_message_closed:
  "is_closed (heap s c) \<Longrightarrow> send_message s c m = unregister s c"
  by (simp add: send_message.simps write_message_closed close_connection_closed)

lemma is_closed_unregister: "is_closed (heap (unregister s c) c)"
  by (simp add: unregister_def Let_def is_closed_def)

lemma close_send_queue:
  "(\<exists>k. disconnection_queue (close_connection s c) = disconnection_queue s @ replicate (Suc k) c)"
  "(\<exists>k. disconnection_queue (send_message s c m) = disconnection_queue s @ replicate k c)"
proof (induction s c and s c m rule: close_connection_send_message.induct)
  case (1 s c)
  show ?case
  proof (cases "is_closed (heap s c)")
    case True
    then have "disconnection_queue (close_connection s c) = disconnection_queue s @ replicate (Suc 0) c"
      by (simp add: close_connection_closed unregister_queue)
    then show ?thesis by blast
  next
    case False
    from 1[OF False] obtain k where
      "disconnection_queue (send_message s c ''quit'') = disconnection_queue s @ replicate k c"
      by blast
    with False have "disconnection_queue (close_connection s c) = disconnection_queue s @ replicate (Suc k) c"
      by (simp add: close_connection.simps unregister_queue replicate_append_same)
    then show ?thesis by blast
  qed
next
  case (2 s c message)
  obtain success s1 where w: "write_message s c message = (success, s1)"
    by (cases "write_message s c message")
  then have q: "disconnection_queue s1 = disconnection_queue s"
    using write_message_queue[of s c message] by simp
  show ?case
  proof (cases success)
    case True
    with w q have "disconnection_queue (send_message s c message) = disconnection_queue s @ replicate 0 c"
      by (simp add: send_message.simps)
    then show ?thesis by blast
  next
    case False
    from 2[OF w[symmetric]] False obtain k where
      "disconnection_queue (close_connection s1 c) = disconnection_queue s1 @ replicate (Suc k) c"
      by auto
    with w q False have "disconnection_queue (send_message s c message) = disconnection_queue s @ replicate (Suc k) c"
      by (simp add: send_message.simps)
    then show ?thesis by blast
  qed
qed

lemma ping_failure:
  assumes "\<not> is_closed (heap s c)" "faults (writer (heap s c)) = f # fs"
    "f = WriteReset True \<or> f = WriteBrokenPipe True"
  shows "fst (ping_connection s c) = False"
    "disconnection_queue (snd (ping_connection s c)) = disconnection_queue s @ [c]"
    "is_closed (heap (snd (ping_connection s c)) c)"
proof -
  let ?w = "(writer (heap s c))\<lparr>closing := True, faults := fs\<rparr>"
  let ?s1 = "s\<lparr>heap := (heap s)(c := (heap s c)\<lparr>writer := ?w\<rparr>)\<rparr>"
  have w: "writeline (writer (heap s c)) ''PING'' = (False, ?w)"
    using assms by (auto simp: writeline_def is_closed_def Let_def)
  have p: "ping_connection s c = (False, close_connection ?s1 c)"
    using assms(1) w by (simp add: ping_connection_def Let_def)
  have c: "is_closed (heap ?s1 c)"
    by (simp add: is_closed_def)
  show "fst (ping_connection s c) = False"
    using p by simp
  show "disconnection_queue (snd (ping_connection s c)) = disconnection_queue s @ [c]"
    using p close_connection_closed[OF c] by (simp add: unregister_queue)
  show "is_closed (heap (snd (ping_connection s c)) c)"
    using p close_connection_closed[OF c] by (simp add: is_closed_unregister)
qed

lemma unregister_connection_queue_same:
  "connection_queue (unregister s c) = connection_queue s"
  by (simp add: unregister_def Let_def)

lemma write_message_connection_queue:
  "connection_queue (snd (write_message s c m)) = connection_queue s"
  by (simp add: write_message_def Let_def)

lemma close_send_connection_queue:
  "connection_queue (close_connection s c) = connection_queue s"
  "connection_queue (send_message s c m) = connection_queue s"
proof (induction s c and s c m rule: close_connection_send_message.induct)
  case (1 s c)
  then show ?case
    by (cases "is_closed (heap s c)")
      (simp_all add: close_connection.simps unregister_connection_queue_same)
next
  case (2 s c message)
  obtain success s1 where w: "write_message s c message = (success, s1)"
    by (cases "write_message s c message")
  then have q: "connection_queue s1 = connection_queue s"
    using write_message_connection_queue[of s c message] by simp
  show ?case
    using w q 2[OF w[symmetric]] by (cases success) (simp_all add: send_message.simps)
qed


lemma send_after_close:
  "is_closed (heap s c) \<Longrightarrow>
   disconnection_queue (send_message s c m) = disconnection_queue s @ [c]"
  by (simp add: send_message_closed unregister_queue)

subsection \<open>Connections that come and go\<close>

lemmas server_eval =
  handle_connection_def handle_browser_connection_def read_request.simps read_message_def
  readline_def read_loop.simps read_def decode_def valid_utf8_def in_range_def eols_def
  encode_def after_loop_def handle_hello_connection.simps get_response_def
  send_message.simps write_message_def writeline_def prefix_message_def
  close_connection.simps unregister_def Server_def new_writer_def Let_def is_closed_def
  string_of_nat.simps suffix_to_prefix validate_name_def normalize_name_def strip_def
  lstrip.simps rstrip.simps whitespace_def is_alnum_def register_def name_exists_def

lemma alice_state:
  "alice =
     Server\<lparr>connections := [0], names := [(''alice'', 0)], connection_queue := [0],
       heap := (heap Server)
         (0 := \<lparr>addr = (''10.0.0.7'', 5010), name = ''alice'', conn_type = ''SOCKET'',
                 reader = [],
                 writer = \<lparr>closing = False, sent = ''Y: What is your name?'' @ [LF],
                           faults = [WriteBrokenPipe True]\<rparr>,
                 buffer = [], attributes = []\<rparr>)\<rparr>"
  by (simp add: alice_def server_eval)

lemma alice_facts:
  "\<not> is_closed (heap alice 0)" "faults (writer (heap alice 0)) = [WriteBrokenPipe True]"
  "disconnection_queue alice = []" "connections alice = [0]"
  by (simp_all add: alice_state is_closed_def Server_def)

text \<open>
  C4, as the code has it: \<open>close_connection\<close> appends the connection to the disconnection
  queue every time it is called, and nothing keeps a connection from being closed again.
  On a connection whose transport is closing, each call of \<open>close_connection\<close> appends
  exactly one event. A keepalive (PING) write that fails and leaves the transport
  closing ends the keepalive loop with one close and one event; a write of an
  application message to the same connection afterwards fails too, closes the
  connection again and appends a second event.
\<close>

theorem disconnect_event_per_close:
  "(is_closed (heap s c) \<longrightarrow>
      disconnection_queue (close_connection s c) = disconnection_queue s @ [c]) \<and>
   (\<not> is_closed (heap s c) \<and> faults (writer (heap s c)) = f # fs \<and>
    (f = WriteReset True \<or> f = WriteBrokenPipe True) \<longrightarrow>
      fst (ping_connection s c) = False \<and>
      disconnection_queue (snd (ping_connection s c)) = disconnection_queue s @ [c] \<and>
      disconnection_queue (send_message (snd (ping_connection s c)) c message) =
        disconnection_queue s @ [c, c])"
proof (intro conjI impI)
  assume "is_closed (heap s c)"
  then show "disconnection_queue (close_connection s c) = disconnection_queue s @ [c]"
    by (simp add: close_connection_closed unregister_queue)
next
  assume a: "\<not> is_closed (heap s c) \<and> faults (writer (heap s c)) = f # fs \<and>
    (f = WriteReset True \<or> f = WriteBrokenPipe True)"
  then have p: "fst (ping_connection s c) = False"
    "disconnection_queue (snd (ping_connection s c)) = disconnection_queue s @ [c]"
    "is_closed (heap (snd (ping_connection s c)) c)"
    using ping_failure[of s c f fs] by simp_all
  show "fst (ping_connection s c) = False"
    by (rule p(1))
  show "disconnection_queue (snd (ping_connection s c)) = disconnection_queue s @ [c]"
    by (rule p(2))
  show "disconnection_queue (send_message (snd (ping_connection s c)) c message) =
        disconnection_queue s @ [c, c]"
    using send_after_close[OF p(3), of message] p(2) by simp
qed

theorem disconnect_event_per_close_witness:
  "fst (ping_connection alice 0) = False \<and>
   disconnection_queue (snd (ping_connection alice 0)) = [0] \<and>
   disconnection_queue
     (send_message (snd (ping_connection alice 0)) 0 ''Rock, Paper, or Scissors?'') = [0, 0] \<and>
   disconnection_queue (close_connection (snd (ping_connection alice 0)) 0) = [0, 0]"
proof -
  have closed: "is_closed (heap (snd (ping_connection alice 0)) 0)"
    using ping_failure(3)[of alice 0 "WriteBrokenPipe True" "[]"] alice_facts by simp
  from disconnect_event_per_close[of alice 0 "WriteBrokenPipe True" "[]" "''Rock, Paper, or Scissors?''"]
    disconnect_event_per_close[of "snd (ping_connection alice 0)" 0 "WriteBrokenPipe True" "[]" "[]"]
    closed alice_facts
  show ?thesis by simp
qed

text \<open>
  C4 as stated fails. The keepalive write to \<open>alice\<close> fails and the connection is closed and
  appended; the prompt the manager then sends to the same connection fails as well
  and appends the connection a second time.
\<close>

theorem disconnect_event_per_close_counterexample:
  "connections alice = [0] \<and> disconnection_queue alice = [] \<and>
   fst (ping_connection alice 0) = False \<and>
   disconnection_queue (snd (ping_connection alice 0)) = [0] \<and>
   disconnection_queue
     (send_message (snd (ping_connection alice 0)) 0 ''Y: Rock, Paper, or Scissors?'') = [0, 0]"
proof -
  note p = ping_failure[of alice 0 "WriteBrokenPipe True" "[]"]
  have "fst (ping_connection alice 0) = False"
    "disconnection_queue (snd (ping_connection alice 0)) = [0]"
    "is_closed (heap (snd (ping_connection alice 0)) 0)"
    using p alice_facts by simp_all
  then show ?thesis
    using alice_facts send_after_close[of "snd (ping_connection alice 0)" 0] by simp
qed

section \<open>Verification of game_manager.py\<close>

subsection \<open>What the operations of the manager leave alone\<close>

lemma visualize_fields:
  "game_type (visualize gm d k w) = game_type gm" "players (visualize gm d k w) = players gm"
  "calls (visualize gm d k w) = calls gm" "game (visualize gm d k w) = game gm"
  "server (visualize gm d k w) = server gm" "start_cooldown (visualize gm d k w) = start_cooldown gm"
  by (simp_all add: visualize_def Let_def)

lemma frames_fields:
  "game_type (foldl (\<lambda>g f. visualize g f False True) gm fs) = game_type gm \<and>
   players (foldl (\<lambda>g f. visualize g f False True) gm fs) = players gm \<and>
   calls (foldl (\<lambda>g f. visualize g f False True) gm fs) = calls gm \<and>
   game (foldl (\<lambda>g f. visualize g f False True) gm fs) = game gm \<and>
   server (foldl (\<lambda>g f. visualize g f False True) gm fs) = server gm \<and>
   start_cooldown (foldl (\<lambda>g f. visualize g f False True) gm fs) = start_cooldown gm"
  by (induction fs arbitrary: gm) (simp_all add: visualize_fields)

lemma handle_game_frame_queue_fields [simp]:
  "game_type (handle_game_frame_queue gm) = game_type gm"
  "players (handle_game_frame_queue gm) = players gm"
  "calls (handle_game_frame_queue gm) = calls gm"
  "game (handle_game_frame_queue gm) = game gm"
  "server (handle_game_frame_queue gm) = server gm"
  "start_cooldown (handle_game_frame_queue gm) = start_cooldown gm"
  using frames_fields[of "gm\<lparr>game_frame_queue := []\<rparr>" "game_frame_queue gm"]
  by (simp_all add: handle_game_frame_queue_def)

lemma game_overs_frames [simp]: "game_overs (handle_game_frame_queue gm) = game_overs gm"
  by (simp add: game_overs_def)

lemma invoke_fields [simp]:
  "game_type (snd (invoke c h gm)) = game_type gm"
  "players (snd (invoke c h gm)) = players gm"
  "server (snd (invoke c h gm)) = server gm"
  by (simp_all add: invoke_def split: option.splits prod.splits)

lemma invoke_calls:
  "calls (snd (invoke c h gm)) = (if game gm = None then calls gm else calls gm @ [c])"
  by (simp add: invoke_def split: option.splits prod.splits)

lemma invoke_Inr: "fst (invoke c h gm) = Inr x \<Longrightarrow> game gm \<noteq> None \<and> game (snd (invoke c h gm)) \<noteq> None"
  by (auto simp: invoke_def split: option.splits prod.splits)

lemma invoke_game: "game gm \<noteq> None \<Longrightarrow> game (snd (invoke c h gm)) \<noteq> None"
  by (auto simp: invoke_def split: option.splits prod.splits)

lemma invoke_game_overs:
  "c \<noteq> Call_on_game_over \<Longrightarrow> game_overs (snd (invoke c h gm)) = game_overs gm"
  by (simp add: game_overs_def invoke_calls)

lemma reset_fields [simp]:
  "game_type (snd (reset_start_cooldown gm)) = game_type gm"
  "players (snd (reset_start_cooldown gm)) = players gm"
  "calls (snd (reset_start_cooldown gm)) = calls gm"
  "game (snd (reset_start_cooldown gm)) = game gm"
  by (simp_all add: reset_start_cooldown_def split: option.splits)

lemma drain_connection_queue_fields:
  "game_type (snd (drain_connection_queue q gm)) = game_type gm \<and>
   players (snd (drain_connection_queue q gm)) = players gm \<and>
   calls (snd (drain_connection_queue q gm)) = calls gm \<and>
   game (snd (drain_connection_queue q gm)) = game gm"
proof (induction q arbitrary: gm)
  case Nil
  then show ?case by simp
next
  case (Cons c q)
  let ?gm = "gm\<lparr>server := (server gm)\<lparr>connection_queue := q\<rparr>\<rparr>"
  obtain r gm1 where r: "reset_start_cooldown ?gm = (r, gm1)"
    by (cases "reset_start_cooldown ?gm")
  then have "game_type gm1 = game_type gm" "players gm1 = players gm" "calls gm1 = calls gm"
    "game gm1 = game gm"
    using reset_fields[of ?gm] by simp_all
  with r Cons.IH[of gm1] show ?case
    by (cases r) simp_all
qed

lemma drain_disconnection_queue_fields:
  "game_type (snd (drain_disconnection_queue q gm)) = game_type gm \<and>
   players (snd (drain_disconnection_queue q gm)) = players gm \<and>
   calls (snd (drain_disconnection_queue q gm)) = calls gm \<and>
   game (snd (drain_disconnection_queue q gm)) = game gm"
proof (induction q arbitrary: gm)
  case Nil
  then show ?case by simp
next
  case (Cons c q)
  let ?gm = "gm\<lparr>server := (server gm)\<lparr>disconnection_queue := q\<rparr>\<rparr>"
  obtain r gm1 where r: "reset_start_cooldown ?gm = (r, gm1)"
    by (cases "reset_start_cooldown ?gm")
  then have "game_type gm1 = game_type gm" "players gm1 = players gm" "calls gm1 = calls gm"
    "game gm1 = game gm"
    using reset_fields[of ?gm] by simp_all
  with r Cons.IH[of gm1] show ?case
    by (cases r) simp_all
qed

lemma handle_connection_queues_fields [simp]:
  "game_type (snd (handle_connection_queues gm)) = game_type gm"
  "players (snd (handle_connection_queues gm)) = players gm"
  "calls (snd (handle_connection_queues gm)) = calls gm"
  "game (snd (handle_connection_queues gm)) = game gm"
proof -
  obtain r gm1 where r: "drain_connection_queue (connection_queue (server gm)) gm = (r, gm1)"
    by (cases "drain_connection_queue (connection_queue (server gm)) gm")
  then have f: "game_type gm1 = game_type gm" "players gm1 = players gm" "calls gm1 = calls gm"
    "game gm1 = game gm"
    using drain_connection_queue_fields[of "connection_queue (server gm)" gm] by simp_all
  show "game_type (snd (handle_connection_queues gm)) = game_type gm"
    "players (snd (handle_connection_queues gm)) = players gm"
    "calls (snd (handle_connection_queues gm)) = calls gm"
    "game (snd (handle_connection_queues gm)) = game gm"
    using r f drain_disconnection_queue_fields[of "disconnection_queue (server gm1)" gm1]
    by (cases r; simp add: handle_connection_queues_def)+
qed

lemma while_waiting_fields [simp]:
  "game_type (while_waiting a gm) = game_type gm" "players (while_waiting a gm) = players gm"
  "calls (while_waiting a gm) = calls gm" "game (while_waiting a gm) = game gm"
  by (simp_all add: while_waiting_def)


lemma kept_refl [simp]: "kept gm gm"
  by (simp add: kept_def)

lemma kept_trans: "kept a b \<Longrightarrow> kept b c \<Longrightarrow> kept a c"
  by (simp add: kept_def)

lemma kept_frames [simp]: "kept gm (handle_game_frame_queue gm)"
  by (simp add: kept_def)

lemma kept_frames_right: "kept gm gm' \<Longrightarrow> kept gm (handle_game_frame_queue gm')"
  by (simp add: kept_def)

lemma kept_invoke: "c \<noteq> Call_on_game_over \<Longrightarrow> kept gm (snd (invoke c h gm))"
  by (simp add: kept_def invoke_game_overs)

lemma kept_queues [simp]: "kept gm (snd (handle_connection_queues gm))"
  by (simp add: kept_def game_overs_def)

lemma kept_waiting [simp]: "kept gm (while_waiting a gm)"
  by (simp add: kept_def game_overs_def)

lemma kept_prompt_players: "kept gm (snd (prompt_players round index conns tasks gm))"
proof (induction conns arbitrary: index tasks gm)
  case Nil
  then show ?case by simp
next
  case (Cons conn conns)
  let ?i = "invoke (Call_get_player_input round index) (get_player_input (game_type gm) round index) gm"
  have k: "kept gm (handle_game_frame_queue (snd ?i))"
    by (intro kept_frames_right kept_invoke) simp
  have k': "kept gm (snd ?i)"
    by (intro kept_invoke) simp
  obtain r gm1 where i: "?i = (r, gm1)"
    by (cases ?i)
  show ?case
  proof (cases r)
    case (Inl e)
    with i k' show ?thesis by simp
  next
    case (Inr p)
    show ?thesis
      using i Inr kept_trans[OF k Cons.IH[where gm = "handle_game_frame_queue (snd ?i)"]]
      by (cases p) auto
  qed
qed

lemma collect_responses_stuck:
  "pending \<noteq> [] \<Longrightarrow> collect_responses round [] pending responses responded gm = None"
  by (cases pending) simp_all

lemma collect_responses_skip:
  "pending \<noteq> [] \<Longrightarrow> player a \<notin> set pending \<Longrightarrow>
   collect_responses round (a # rest) pending responses responded gm =
   collect_responses round rest pending responses responded gm"
  by (cases pending) simp_all

lemma collect_responses_step:
  assumes "player a \<in> set pending"
  shows "collect_responses round (a # rest) pending responses responded gm =
     (case result a of
        Inl e \<Rightarrow> Some (Inl e, while_waiting a gm)
      | Inr r \<Rightarrow>
          if length responses \<le> player a then Some (Inl IndexError, while_waiting a gm)
          else
            (case invoke (Call_on_player_output round (player a) r)
                    (on_player_output (game_type gm) round (player a) r)
                    (while_waiting a gm) of
               (Inl e, gm1) \<Rightarrow> Some (Inl e, gm1)
             | (Inr u, gm1) \<Rightarrow>
                 collect_responses round rest (remove1 (player a) pending)
                   (responses[player a := r]) (Suc responded)
                   (handle_game_frame_queue gm1)))"
proof (cases pending)
  case Nil
  with assms show ?thesis by simp
next
  case (Cons t ts)
  from assms show ?thesis unfolding Cons by simp
qed

lemma kept_collect_responses:
  "collect_responses round arrivals pending responses responded gm = Some y \<Longrightarrow>
   kept gm (snd y)"
proof (induction arrivals arbitrary: pending responses responded gm)
  case Nil
  then show ?case by (cases pending) auto
next
  case (Cons a arrivals)
  consider "pending = []" | "pending \<noteq> []" "player a \<notin> set pending" | "player a \<in> set pending"
    by auto
  then show ?case
  proof cases
    case 1
    with Cons.prems show ?thesis by auto
  next
    case 2
    with Cons.prems have "collect_responses round arrivals pending responses responded gm = Some y"
      by (simp add: collect_responses_skip)
    then show ?thesis by (rule Cons.IH)
  next
    case 3
    note step = Cons.prems[unfolded collect_responses_step[OF 3]]
    show ?thesis
    proof (cases "result a")
      case (Inl e)
      with step show ?thesis by auto
    next
      case (Inr r)
      let ?i = "invoke (Call_on_player_output round (player a) r)
                  (on_player_output (game_type gm) round (player a) r) (while_waiting a gm)"
      have "kept (while_waiting a gm) (snd ?i)"
        by (rule kept_invoke) simp
      then have k': "kept gm (snd ?i)"
        by (rule kept_trans[OF kept_waiting])
      then have k: "kept gm (handle_game_frame_queue (snd ?i))"
        by (rule kept_frames_right)
      obtain x gm1 where i: "?i = (x, gm1)"
        by (cases ?i)
      show ?thesis
      proof (cases "length responses \<le> player a")
        case True
        with Inr step show ?thesis by auto
      next
        case False
        show ?thesis
        proof (cases x)
          case (Inl e)
          with \<open>result a = Inr r\<close> False i step k' show ?thesis by auto
        next
          case x: (Inr u)
          with \<open>result a = Inr r\<close> False i step
          have "collect_responses round arrivals (remove1 (player a) pending)
                  (responses[player a := r]) (Suc responded) (handle_game_frame_queue gm1) = Some y"
            by simp
          then have "kept (handle_game_frame_queue gm1) (snd y)"
            by (rule Cons.IH)
          moreover have "kept gm (handle_game_frame_queue gm1)"
            using k i by simp
          ultimately show ?thesis
            using kept_trans by blast
        qed
      qed
    qed
  qed
qed

lemma kept_check_responses:
  "kept gm (snd (check_responses round tasks responses responded gm))"
proof -
  obtain x gm1 where q: "handle_connection_queues gm = (x, gm1)"
    by (cases "handle_connection_queues gm")
  then have "kept gm gm1"
    using kept_queues[of gm] by simp
  with q show ?thesis
    by (cases x) (simp_all add: check_responses_def)
qed

lemma kept_get_player_outputs:
  assumes "get_player_outputs round arrivals gm = Some y"
  shows "kept gm (snd y)"
proof -
  let ?p = "prompt_players round 0 (players gm) [] gm"
  obtain r gm1 where p: "?p = (r, gm1)"
    by (cases ?p)
  then have k1: "kept gm gm1"
    using kept_prompt_players[of gm round 0 "players gm" "[]"] by simp
  show ?thesis
  proof (cases r)
    case (Inl e)
    with p k1 assms show ?thesis by (auto simp: get_player_outputs_def)
  next
    case (Inr tasks)
    show ?thesis
    proof (cases "tasks = []")
      case True
      with p Inr k1 assms show ?thesis by (auto simp: get_player_outputs_def)
    next
      case False
      let ?c = "collect_responses round arrivals (map fst tasks) (replicate (length tasks) None) 0 gm1"
      from assms p Inr False obtain x gm2 where c: "?c = Some (x, gm2)"
        by (cases ?c) (auto simp: get_player_outputs_def)
      from kept_collect_responses[OF c] have "kept gm1 gm2"
        by simp
      then have k2: "kept gm gm2"
        by (rule kept_trans[OF k1])
      have k3: "\<And>rs n. kept gm (snd (check_responses round tasks rs n gm2))"
        by (rule kept_trans[OF k2 kept_check_responses])
      show ?thesis
        using assms p Inr False c k2 k3
        by (cases x) (auto simp: get_player_outputs_def)
    qed
  qed
qed


lemma kept_handle_player_outputs: "kept gm (snd (handle_player_outputs round outputs gm))"
proof (induction outputs arbitrary: gm)
  case Nil
  then show ?case by simp
next
  case (Cons pair outputs)
  obtain index out where o: "pair = (index, out)"
    by (cases pair)
  let ?i = "invoke (Call_handle_player_output round index out)
              (handle_player_output (game_type gm) round index out) gm"
  have k': "kept gm (snd ?i)"
    by (intro kept_invoke) simp
  then have k: "kept gm (handle_game_frame_queue (snd ?i))"
    by (rule kept_frames_right)
  obtain x gm1 where i: "?i = (x, gm1)"
    by (cases ?i)
  with o k' kept_trans[OF k Cons.IH[where gm = "handle_game_frame_queue (snd ?i)"]] show ?case
    by (cases x) auto
qed

lemma kept_visualize_round: "kept gm (snd (visualize_round gm))"
  by (auto simp: visualize_round_def Let_def kept_def game_overs_def visualize_fields
      split: option.splits sum.splits)

lemma kept_finish_round: "kept gm (snd (finish_round round outputs gm))"
proof -
  let ?h = "handle_player_outputs round outputs gm"
  obtain x gm1 where h: "?h = (x, gm1)"
    by (cases ?h)
  then have k1: "kept gm gm1"
    using kept_handle_player_outputs[of gm round outputs] by simp
  let ?u = "invoke (Call_update_game round) (update_game (game_type gm1) round) gm1"
  obtain y gm2 where u: "?u = (y, gm2)"
    by (cases ?u)
  then have "kept gm1 gm2"
    using kept_invoke[of "Call_update_game round" gm1 "update_game (game_type gm1) round"]
    by simp
  then have k2: "kept gm gm2"
    by (rule kept_trans[OF k1])
  have k3: "kept gm (snd (visualize_round gm2))"
    by (rule kept_trans[OF k2 kept_visualize_round])
  show ?thesis
    using h u k1 k2 k3 by (cases x; cases y) (simp_all add: finish_round_def)
qed

lemma kept_play_round:
  assumes "play_round round arrivals gm = Some y"
  shows "kept gm (snd y)"
proof -
  let ?p = "invoke (Call_prepare_round round) (prepare_round (game_type gm) round) gm"
  obtain x gm1 where p: "?p = (x, gm1)"
    by (cases ?p)
  then have k1: "kept gm gm1"
    using kept_invoke[of "Call_prepare_round round" gm "prepare_round (game_type gm) round"] by simp
  show ?thesis
  proof (cases x)
    case (Inl e)
    with p assms have "y = (Inl e, gm1)"
      by (simp add: play_round_def)
    with k1 show ?thesis by simp
  next
    case (Inr u)
    let ?o = "get_player_outputs round arrivals (handle_game_frame_queue gm1)"
    from assms p Inr obtain z gm2 where o: "?o = Some (z, gm2)"
      by (cases ?o) (auto simp: play_round_def)
    from kept_get_player_outputs[OF o] have "kept (handle_game_frame_queue gm1) gm2"
      by simp
    then have k2: "kept gm gm2"
      by (rule kept_trans[OF kept_frames_right[OF k1]])
    have k3: "\<And>outs. kept gm (snd (finish_round round outs gm2))"
      by (rule kept_trans[OF k2 kept_finish_round])
    show ?thesis
      using assms p Inr o k2 k3 by (cases z) (auto simp: play_round_def)
  qed
qed

lemma kept_play_rounds:
  assumes "play_rounds arrivals round gm = Some y"
  shows "kept gm (snd y)"
proof (rule play_rounds.raw_induct
    [where P = "\<lambda>arrivals round gm y. kept gm (snd y)", OF _ assms])
  fix f and arrivals :: "nat \<Rightarrow> arrival list" and round and gm :: "'a game_manager" and y
  assume IH: "\<And>arrivals round gm y. f arrivals round gm = Some y \<Longrightarrow> kept gm (snd y)"
    and step: "(case play_round round (arrivals round) gm of
                  None \<Rightarrow> None
                | Some (Inl e, gm1) \<Rightarrow> Some (e, gm1)
                | Some (Inr u, gm1) \<Rightarrow> f arrivals (Suc round) gm1) = Some y"
  from step obtain x gm1 where p: "play_round round (arrivals round) gm = Some (x, gm1)"
    by (cases "play_round round (arrivals round) gm") auto
  from kept_play_round[OF p] have k: "kept gm gm1"
    by simp
  show "kept gm (snd y)"
  proof (cases x)
    case (Inl a)
    with p step k show ?thesis by auto
  next
    case (Inr b)
    with p step have "f arrivals (Suc round) gm1 = Some y"
      by simp
    from kept_trans[OF k IH[OF this]] show ?thesis .
  qed
qed



subsection \<open>The end of a session\<close>

lemma kept_try_play:
  assumes "try_play arrivals gm = Some y"
  shows "kept gm (snd y)"
proof -
  obtain x gm1 where b: "bind_players gm = (x, gm1)"
    by (cases "bind_players gm")
  then have k1: "kept gm gm1"
    by (auto simp: bind_players_def kept_def game_overs_def split: option.splits)
  let ?i = "invoke Call_setup_game (setup_game (game_type gm1)) gm1"
  obtain z gm2 where i: "?i = (z, gm2)"
    by (cases ?i)
  then have "kept gm1 gm2"
    using kept_invoke[of Call_setup_game gm1 "setup_game (game_type gm1)"] by simp
  then have k2: "kept gm gm2"
    by (rule kept_trans[OF k1])
  show ?thesis
  proof (cases x)
    case (Inl e)
    with assms b k1 show ?thesis by (auto simp: try_play_def)
  next
    case (Inr u)
    show ?thesis
    proof (cases z)
      case (Inl e)
      with assms b i Inr k2 show ?thesis by (auto simp: try_play_def)
    next
      case (Inr v)
      with assms b i \<open>x = Inr u\<close> have "play_rounds arrivals 0 (handle_game_frame_queue gm2) = Some y"
        by (simp add: try_play_def)
      from kept_trans[OF kept_frames_right[OF k2] kept_play_rounds[OF this]]
      show ?thesis .
    qed
  qed
qed

lemma end_game_calls:
  assumes "fst (visualize_round gm) = Inr ()"
  shows "calls (snd (end_game gm)) = calls gm @ [Call_on_game_over]"
proof -
  obtain x gm1 where v: "visualize_round gm = (x, gm1)"
    by (cases "visualize_round gm")
  with assms have x: "x = Inr ()" by simp
  have g: "game gm1 \<noteq> None" and c: "calls gm1 = calls gm"
    using v x
    by (auto simp: visualize_round_def Let_def visualize_fields split: option.splits sum.splits if_splits)
  let ?i = "invoke Call_on_game_over (on_game_over (game_type gm1)) gm1"
  have "calls (snd ?i) = calls gm @ [Call_on_game_over]"
    using g c by (simp add: invoke_calls)
  then show ?thesis
    using v x by (cases ?i; cases "fst ?i") (auto simp: end_game_def)
qed

lemma end_game_fails:
  assumes "fst (visualize_round gm) = Inl e"
  shows "end_game gm = (Inl e, snd (visualize_round gm)) \<and> game_overs (snd (end_game gm)) = game_overs gm"
  using assms kept_visualize_round[of gm]
  by (cases "visualize_round gm") (auto simp: end_game_def kept_def)

lemma new_session_calls: "calls (snd (new_session file_name gm)) = calls gm"
  by (simp add: new_session_def Let_def create_visualizer_file_def)


subsection \<open>The fan-out\<close>



lemma prompt_players_indices:
  assumes "fst (prompt_players round index conns tasks gm) = Inr tasks'"
  shows "\<exists>xs. map fst tasks' = map fst tasks @ xs \<and> distinct xs \<and> (\<forall>x\<in>set xs. index \<le> x)"
  using assms
proof (induction conns arbitrary: index tasks gm)
  case Nil
  then show ?case by simp
next
  case (Cons conn conns)
  let ?i = "invoke (Call_get_player_input round index) (get_player_input (game_type gm) round index) gm"
  obtain r gmA where i: "?i = (r, gmA)"
    by (cases ?i)
  from Cons.prems i obtain v where r: "r = Inr v"
    by (cases r) auto
  show ?case
  proof (cases "v = None \<or> v = Some []")
    case True
    with Cons.prems i r
    have "fst (prompt_players round (Suc index) conns tasks (handle_game_frame_queue gmA)) = Inr tasks'"
      by auto
    from Cons.IH[OF this] obtain xs where
      "map fst tasks' = map fst tasks @ xs" "distinct xs" "\<forall>x\<in>set xs. Suc index \<le> x"
      by blast
    then show ?thesis
      by (intro exI[of _ xs]) auto
  next
    case False
    then obtain p where p: "v = Some p" "p \<noteq> []"
      by (cases v) auto
    with Cons.prems i r
    have "fst (prompt_players round (Suc index) conns (tasks @ [(index, conn, p)])
                (handle_game_frame_queue gmA)) = Inr tasks'"
      by simp
    from Cons.IH[OF this] obtain xs where
      "map fst tasks' = map fst (tasks @ [(index, conn, p)]) @ xs" "distinct xs"
      "\<forall>x\<in>set xs. Suc index \<le> x"
      by blast
    then show ?thesis
      by (intro exI[of _ "index # xs"]) auto
  qed
qed






lemma prompt_players_game:
  assumes "fst (prompt_players round index conns tasks gm) = Inr tasks'"
    and "conns \<noteq> [] \<or> game gm \<noteq> None"
  shows "game (snd (prompt_players round index conns tasks gm)) \<noteq> None"
  using assms
proof (induction conns arbitrary: index tasks gm)
  case Nil
  then show ?case by simp
next
  case (Cons conn conns)
  let ?i = "invoke (Call_get_player_input round index) (get_player_input (game_type gm) round index) gm"
  obtain r gmA where i: "?i = (r, gmA)"
    by (cases ?i)
  from Cons.prems(1) i obtain v where r: "r = Inr v"
    by (cases r) auto
  have "fst ?i = Inr v"
    using i r by simp
  from invoke_Inr[OF this] have g: "game (handle_game_frame_queue gmA) \<noteq> None"
    using i by simp
  show ?case
    using Cons.prems(1) i r Cons.IH[where gm = "handle_game_frame_queue gmA"] g
    by (cases v) (auto split: if_splits)
qed

lemma collect_responses_out_of_range:
  assumes "distinct pending" "set pending \<subseteq> player ` set arrivals"
    and "\<exists>i\<in>set pending. length responses \<le> i"
  shows "\<exists>e gm1. collect_responses round arrivals pending responses responded gm =
                    Some (Inl e, gm1) \<and>
                  ((\<forall>a\<in>set arrivals. \<not> isl (result a)) \<and>
                   (\<forall>i r g. snd (snd (on_player_output (game_type gm) round i r g)) = Inr ()) \<and>
                   game gm \<noteq> None \<longrightarrow> e = IndexError)"
  using assms
proof (induction arrivals arbitrary: pending responses responded gm)
  case Nil
  then show ?case by auto
next
  case (Cons a arrivals)
  from Cons.prems(3) have ne: "pending \<noteq> []"
    by auto
  show ?case
  proof (cases "player a \<in> set pending")
    case False
    with Cons.prems(2) have "set pending \<subseteq> player ` set arrivals"
      by auto
    from Cons.IH[OF Cons.prems(1) this Cons.prems(3), of responded gm] obtain e gm1 where
      "collect_responses round arrivals pending responses responded gm = Some (Inl e, gm1)"
      "(\<forall>a\<in>set arrivals. \<not> isl (result a)) \<and>
       (\<forall>i r g. snd (snd (on_player_output (game_type gm) round i r g)) = Inr ()) \<and>
       game gm \<noteq> None \<longrightarrow> e = IndexError"
      by blast
    with False ne show ?thesis
      by (intro exI[of _ e] exI[of _ gm1]) (simp add: collect_responses_skip)
  next
    case True
    note step = collect_responses_step[OF True, of round arrivals responses responded gm]
    show ?thesis
    proof (cases "result a")
      case (Inl e)
      with step show ?thesis by simp
    next
      case (Inr r)
      show ?thesis
      proof (cases "length responses \<le> player a")
        case True
        with Inr step show ?thesis by simp
      next
        case False
        let ?pending = "remove1 (player a) pending"
        have d: "distinct ?pending"
          using Cons.prems(1) by simp
        have s: "set ?pending \<subseteq> player ` set arrivals"
          using Cons.prems(1,2) by auto
        have later: "\<exists>i\<in>set ?pending. length (responses[player a := r]) \<le> i"
          using Cons.prems(1,3) False by auto
        let ?i = "invoke (Call_on_player_output round (player a) r)
                    (on_player_output (game_type gm) round (player a) r) (while_waiting a gm)"
        obtain x gm1 where i: "?i = (x, gm1)"
          by (cases ?i)
        have gt: "game_type (handle_game_frame_queue gm1) = game_type gm"
        proof -
          have "game_type (snd ?i) = game_type gm" by simp
          with i show ?thesis by simp
        qed
        note IH = Cons.IH[OF d s later, of "Suc responded" "handle_game_frame_queue gm1"]
        have quiet: "x = Inr () \<and> game (handle_game_frame_queue gm1) \<noteq> None"
          if "\<forall>i r g. snd (snd (on_player_output (game_type gm) round i r g)) = Inr ()"
            and "game gm \<noteq> None"
        proof -
          from that(2) obtain g where g: "game (while_waiting a gm) = Some g"
            by auto
          obtain frames g' y where h: "on_player_output (game_type gm) round (player a) r g = (frames, g', y)"
            by (cases "on_player_output (game_type gm) round (player a) r g")
          with that(1) have "y = Inr ()"
            by (metis snd_conv)
          with g h i show ?thesis
            by (auto simp: invoke_def)
        qed
        show ?thesis
        proof (cases x)
          case (Inl e)
          with Inr False i quiet step show ?thesis by auto
        next
          case (Inr u)
          with \<open>result a = Inr r\<close> False i IH gt quiet step show ?thesis
            by auto
        qed
      qed
    qed
  qed
qed



subsection \<open>Draining the connection queues\<close>

lemma reset_start_cooldown_game:
  "game gm = Some g \<Longrightarrow>
   reset_start_cooldown gm = (Inr (), gm\<lparr>start_cooldown := game_start_cooldown (game_type gm) g\<rparr>)"
  by (simp add: reset_start_cooldown_def)

lemma drain_connection_queue_server:
  "game gm = Some g \<Longrightarrow>
   fst (drain_connection_queue q gm) = Inr () \<and>
   disconnection_queue (server (snd (drain_connection_queue q gm))) =
     disconnection_queue (server gm) \<and>
   heap (server (snd (drain_connection_queue q gm))) = heap (server gm)"
proof (induction q arbitrary: gm)
  case Nil
  then show ?case by simp
next
  case (Cons c q)
  let ?gm = "gm\<lparr>server := (server gm)\<lparr>connection_queue := q\<rparr>\<rparr>"
  have "game ?gm = Some g"
    using Cons.prems by simp
  from reset_start_cooldown_game[OF this] Cons.IH[of "?gm\<lparr>start_cooldown := game_start_cooldown (game_type ?gm) g\<rparr>"] Cons.prems
  show ?case by simp
qed

lemma drain_disconnection_queue_resets:
  "game gm = Some g \<Longrightarrow>
   start_cooldown (snd (drain_disconnection_queue q gm)) =
     (if q = [] then start_cooldown gm else game_start_cooldown (game_type gm) g)"
proof (induction q arbitrary: gm)
  case Nil
  then show ?case by simp
next
  case (Cons c q)
  let ?gm = "gm\<lparr>server := (server gm)\<lparr>disconnection_queue := q\<rparr>\<rparr>"
  let ?gm1 = "?gm\<lparr>start_cooldown := game_start_cooldown (game_type ?gm) g\<rparr>"
  have "game ?gm = Some g"
    using Cons.prems by simp
  from reset_start_cooldown_game[OF this] Cons.IH[of ?gm1] Cons.prems
  show ?case by simp
qed

lemma drain_disconnection_queue_strangers:
  "game gm = Some g \<Longrightarrow> set q \<inter> set (players gm) = {} \<Longrightarrow>
   fst (drain_disconnection_queue q gm) = Inr () \<and>
   disconnection_queue (server (snd (drain_disconnection_queue q gm))) =
     (if q = [] then disconnection_queue (server gm) else [])"
proof (induction q arbitrary: gm)
  case Nil
  then show ?case by simp
next
  case (Cons c q)
  let ?gm = "gm\<lparr>server := (server gm)\<lparr>disconnection_queue := q\<rparr>\<rparr>"
  let ?gm1 = "?gm\<lparr>start_cooldown := game_start_cooldown (game_type ?gm) g\<rparr>"
  have "game ?gm = Some g"
    using Cons.prems by simp
  from reset_start_cooldown_game[OF this] Cons.IH[of ?gm1] Cons.prems
  show ?case by simp
qed

lemma handle_connection_queues_resets:
  assumes "game gm = Some g" "disconnection_queue (server gm) \<noteq> []"
  shows "start_cooldown (snd (handle_connection_queues gm)) = game_start_cooldown (game_type gm) g"
proof -
  let ?d = "drain_connection_queue (connection_queue (server gm)) gm"
  obtain x gm1 where d: "?d = (x, gm1)"
    by (cases ?d)
  have x: "x = Inr ()" and q: "disconnection_queue (server gm1) = disconnection_queue (server gm)"
    using drain_connection_queue_server[OF assms(1), of "connection_queue (server gm)"] d
    by simp_all
  have g: "game gm1 = Some g" "game_type gm1 = game_type gm"
    using drain_connection_queue_fields[of "connection_queue (server gm)" gm] d assms(1)
    by simp_all
  show ?thesis
    using d x q g assms(2) drain_disconnection_queue_resets[OF g(1), of "disconnection_queue (server gm1)"]
    by (simp add: handle_connection_queues_def)
qed

lemma handle_connection_queues_strangers:
  assumes "game gm = Some g" "set (disconnection_queue (server gm)) \<inter> set (players gm) = {}"
  shows "fst (handle_connection_queues gm) = Inr ()"
proof -
  let ?d = "drain_connection_queue (connection_queue (server gm)) gm"
  obtain x gm1 where d: "?d = (x, gm1)"
    by (cases ?d)
  have x: "x = Inr ()" and q: "disconnection_queue (server gm1) = disconnection_queue (server gm)"
    using drain_connection_queue_server[OF assms(1), of "connection_queue (server gm)"] d
    by simp_all
  have g: "game gm1 = Some g" "players gm1 = players gm"
    using drain_connection_queue_fields[of "connection_queue (server gm)" gm] d assms(1)
    by simp_all
  show ?thesis
    using d x q g assms(2) drain_disconnection_queue_strangers[OF g(1), of "disconnection_queue (server gm1)"]
    by (simp add: handle_connection_queues_def)
qed

subsection \<open>A round in which nothing raises\<close>










subsection \<open>Claims about sessions\<close>

lemma game_loop_ends:
  "play_game arrivals (gm\<lparr>players := waiting\<rparr>) = Some (Inl e, gm1) \<Longrightarrow>
   game_loop waiting arrivals file_name gm = Some (Inl e, gm1)"
  by (simp add: game_loop_def)

lemma game_loop_goes_on:
  "play_game arrivals (gm\<lparr>players := waiting\<rparr>) = Some (Inr u, gm1) \<Longrightarrow>
   game_loop waiting arrivals file_name gm = Some (new_session file_name gm1)"
  by (simp add: game_loop_def)

lemma rps_session:
  "map_option (\<lambda>(e, gm1). (e, fst (visualize_round gm1)))
     (try_play moves (rps\<lparr>players := [0, 1]\<rparr>)) =
   Some (GameOverError ''Player 0 wins'', Inr ())"
  by code_simp

lemma rps_first_leaves:
  "map_option (\<lambda>(e, gm1). (e, fst (visualize_round gm1)))
     (try_play first_leaves (rps\<lparr>players := [0, 1]\<rparr>)) =
   Some (PlayerDisconnectedError ''Player alice disconnected during game'', Inr ())"
  by code_simp

lemma rps_fresh: "game_overs rps = 0"
  by (simp add: rps_def start_def GameManager_def create_visualizer_file_def game_overs_def
      Let_def)

text \<open>
  C1, as the code has it. \<open>play_game\<close> catches \<open>GameOverError\<close> and \<open>PlayerDisconnectedError\<close>
  only. When the session ends with one of them and the closing snapshot does not raise,
  \<open>on_game_over\<close> is invoked exactly once, as the last call made to the game, and the game
  object is discarded (by \<open>game_loop\<close>) only after that. Any other exception raised in the
  session leaves \<open>play_game\<close> and \<open>game_loop\<close> at once: \<open>on_game_over\<close> is not invoked and
  the game object is not discarded.
\<close>

theorem on_game_over_once:
  assumes "try_play arrivals (gm\<lparr>players := waiting\<rparr>) = Some (e, gm1)"
  shows "(caught e \<and> fst (visualize_round gm1) = Inr () \<longrightarrow>
            play_game arrivals (gm\<lparr>players := waiting\<rparr>) = Some (end_game gm1) \<and>
            calls (snd (end_game gm1)) = calls gm1 @ [Call_on_game_over] \<and>
            game_overs (snd (end_game gm1)) = game_overs gm + 1 \<and>
            (fst (end_game gm1) = Inr () \<longrightarrow>
               game_loop waiting arrivals file_name gm =
                 Some (new_session file_name (snd (end_game gm1))) \<and>
               game_overs (snd (new_session file_name (snd (end_game gm1)))) =
                 game_overs gm + 1)) \<and>
         (\<not> caught e \<longrightarrow>
            play_game arrivals (gm\<lparr>players := waiting\<rparr>) = Some (Inl e, gm1) \<and>
            game_overs gm1 = game_overs gm \<and>
            game_loop waiting arrivals file_name gm = Some (Inl e, gm1))"
proof -
  have k: "game_overs gm1 = game_overs gm"
    using kept_try_play[OF assms] by (simp add: kept_def game_overs_def)
  have p: "play_game arrivals (gm\<lparr>players := waiting\<rparr>) =
           (if caught e then Some (end_game gm1) else Some (Inl e, gm1))"
    using assms by (simp add: play_game_def)
  have fatal: "game_loop waiting arrivals file_name gm = Some (Inl e, gm1)" if "\<not> caught e"
    using p that by (intro game_loop_ends) simp
  have once: "game_overs (snd (end_game gm1)) = game_overs gm + 1"
    and last: "calls (snd (end_game gm1)) = calls gm1 @ [Call_on_game_over]"
    if "fst (visualize_round gm1) = Inr ()"
    using end_game_calls[OF that] k by (simp_all add: game_overs_def)
  have next_game: "game_loop waiting arrivals file_name gm =
                     Some (new_session file_name (snd (end_game gm1)))"
    if "caught e" "fst (end_game gm1) = Inr ()"
  proof -
    have "end_game gm1 = (Inr (), snd (end_game gm1))"
      using that(2) by (simp add: prod_eq_iff)
    with p that(1) have "play_game arrivals (gm\<lparr>players := waiting\<rparr>) =
                           Some (Inr (), snd (end_game gm1))"
      by simp
    then show ?thesis by (rule game_loop_goes_on)
  qed
  have discarded: "game_overs (snd (new_session file_name (snd (end_game gm1)))) =
                     game_overs (snd (end_game gm1))"
    by (simp add: game_overs_def new_session_calls)
  show ?thesis
    using k p fatal once last next_game discarded by simp
qed

theorem on_game_over_once_witness:
  "(\<exists>gm1. try_play moves (rps\<lparr>players := [0, 1]\<rparr>) =
            Some (GameOverError ''Player 0 wins'', gm1) \<and>
          play_game moves (rps\<lparr>players := [0, 1]\<rparr>) = Some (end_game gm1) \<and>
          calls (snd (end_game gm1)) = calls gm1 @ [Call_on_game_over] \<and>
          game_overs (snd (end_game gm1)) = 1) \<and>
   (\<exists>gm1. try_play first_leaves (rps\<lparr>players := [0, 1]\<rparr>) =
            Some (PlayerDisconnectedError ''Player alice disconnected during game'', gm1) \<and>
          play_game first_leaves (rps\<lparr>players := [0, 1]\<rparr>) = Some (end_game gm1) \<and>
          calls (snd (end_game gm1)) = calls gm1 @ [Call_on_game_over] \<and>
          game_overs (snd (end_game gm1)) = 1)"
proof
  from rps_session obtain gm1 where
    t: "try_play moves (rps\<lparr>players := [0, 1]\<rparr>) = Some (GameOverError ''Player 0 wins'', gm1)"
    and v: "fst (visualize_round gm1) = Inr ()"
    by (auto simp: map_option_eq_Some)
  from on_game_over_once[OF t, of "''games/next.txt''"] v rps_fresh t
  show "\<exists>gm1. try_play moves (rps\<lparr>players := [0, 1]\<rparr>) =
            Some (GameOverError ''Player 0 wins'', gm1) \<and>
          play_game moves (rps\<lparr>players := [0, 1]\<rparr>) = Some (end_game gm1) \<and>
          calls (snd (end_game gm1)) = calls gm1 @ [Call_on_game_over] \<and>
          game_overs (snd (end_game gm1)) = 1"
    by simp
next
  from rps_first_leaves obtain gm1 where
    t: "try_play first_leaves (rps\<lparr>players := [0, 1]\<rparr>) =
          Some (PlayerDisconnectedError ''Player alice disconnected during game'', gm1)"
    and v: "fst (visualize_round gm1) = Inr ()"
    by (auto simp: map_option_eq_Some)
  from on_game_over_once[OF t, of "''games/next.txt''"] v rps_fresh t
  show "\<exists>gm1. try_play first_leaves (rps\<lparr>players := [0, 1]\<rparr>) =
            Some (PlayerDisconnectedError ''Player alice disconnected during game'', gm1) \<and>
          play_game first_leaves (rps\<lparr>players := [0, 1]\<rparr>) = Some (end_game gm1) \<and>
          calls (snd (end_game gm1)) = calls gm1 @ [Call_on_game_over] \<and>
          game_overs (snd (end_game gm1)) = 1"
    by simp
qed

text \<open>
  C1 as stated fails for a fatal error raised from a hook. The game expects two players
  and the session has three: \<open>setup_game\<close> raises \<open>RuntimeError\<close>, which ends \<open>play_game\<close> and
  \<open>game_loop\<close>; \<open>setup_game\<close> is the only call ever made to the game.
\<close>

theorem on_game_over_once_counterexample:
  "map_option (\<lambda>(r, gm1). (r, calls gm1, game_overs gm1))
     (game_loop [0, 1, 2] moves ''games/next.txt'' rps) =
   Some (Inl (RuntimeError ''Unexpected player count: 3''), [Call_setup_game], 0)"
  by code_simp

subsection \<open>Claims about the fan-out\<close>



lemma trio_without_second_tasks:
  "fst (prompt_players 0 0 (players trio_without_second) [] trio_without_second) =
   Inr [(0, 0, ''Rock, Paper, or Scissors?''), (2, 2, ''Rock, Paper, or Scissors?'')]"
  by code_simp

lemma trio_without_second_quiet:
  "snd (snd (on_player_output (game_type trio_without_second) round i r g)) = Inr ()"
  by (simp add: trio_without_second_def start_def GameManager_def create_visualizer_file_def
      Let_def example_game_def)

text \<open>
  C6: the responses are stored by roster index in a list that has one place for each
  prompted player. Whenever a prompted player's roster index is not below the number of
  prompted players and the response of every prompted player completes,
  \<open>get_player_outputs\<close> raises instead of returning the responses; the exception is
  \<open>IndexError\<close> when no response task and no call of \<open>on_player_output\<close> raised before.
\<close>

theorem get_player_outputs_index_error:
  assumes "fst (prompt_players round 0 (players gm) [] gm) = Inr tasks"
    and "\<exists>t\<in>set tasks. length tasks \<le> fst t"
    and "fst ` set tasks \<subseteq> player ` set arrivals"
  shows "\<exists>e gm1. get_player_outputs round arrivals gm = Some (Inl e, gm1) \<and>
           ((\<forall>a\<in>set arrivals. \<not> isl (result a)) \<and>
            (\<forall>i r g. snd (snd (on_player_output (game_type gm) round i r g)) = Inr ()) \<longrightarrow>
            e = IndexError)"
proof -
  obtain gmA where p: "prompt_players round 0 (players gm) [] gm = (Inr tasks, gmA)"
    using assms(1) by (cases "prompt_players round 0 (players gm) [] gm") simp
  from assms(2) have ne: "tasks \<noteq> []"
    by auto
  then have "players gm \<noteq> []"
    using p by (cases "players gm") auto
  then have g: "game gmA \<noteq> None"
    using prompt_players_game[OF assms(1)] p by simp
  have gt: "game_type gmA = game_type gm"
    using kept_prompt_players[of gm round 0 "players gm" "[]"] p by (simp add: kept_def)
  have d: "distinct (map fst tasks)"
    using prompt_players_indices[OF assms(1)] by auto
  have s: "set (map fst tasks) \<subseteq> player ` set arrivals"
    using assms(3) by simp
  have "\<exists>i\<in>set (map fst tasks). length (replicate (length tasks) (None :: string option)) \<le> i"
    using assms(2) by auto
  from collect_responses_out_of_range[OF d s this, of round 0 gmA] obtain e gmB where
    c: "collect_responses round arrivals (map fst tasks) (replicate (length tasks) None) 0 gmA =
          Some (Inl e, gmB)" and
    i: "(\<forall>a\<in>set arrivals. \<not> isl (result a)) \<and>
        (\<forall>i r g. snd (snd (on_player_output (game_type gmA) round i r g)) = Inr ()) \<and>
        game gmA \<noteq> None \<longrightarrow> e = IndexError"
    by blast
  have "get_player_outputs round arrivals gm = Some (Inl e, gmB)"
    using p ne c by (simp add: get_player_outputs_def)
  with i g gt show ?thesis
    by simp
qed

theorem get_player_outputs_index_error_witness:
  "\<exists>gm1. get_player_outputs 0 [answers 0 ''Rock'', answers 2 ''Paper''] trio_without_second =
           Some (Inl IndexError, gm1)"
proof -
  let ?tasks = "[(0, 0, ''Rock, Paper, or Scissors?''), (2 :: nat, 2 :: nat, ''Rock, Paper, or Scissors?'')]"
  let ?arrivals = "[answers 0 ''Rock'', answers 2 ''Paper'']"
  have a: "\<exists>t\<in>set ?tasks. length ?tasks \<le> fst t"
    by simp
  have b: "fst ` set ?tasks \<subseteq> player ` set ?arrivals"
    by (simp add: answers_def)
  have c: "\<forall>a\<in>set ?arrivals. \<not> isl (result a)"
    by (simp add: answers_def)
  from get_player_outputs_index_error[OF trio_without_second_tasks a b] c
    trio_without_second_quiet
  show ?thesis by simp
qed

subsection \<open>Claims about the disconnection queue\<close>

lemma hung_up_queues:
  "connection_queue hung_up = [] \<and> disconnection_queue hung_up = [0] \<and> connections hung_up = []"
  by (simp add: hung_up_def server_eval)

lemma hello_then_eof:
  "map_option (\<lambda>(r, s). (connection_queue s, disconnection_queue s))
     (handle_connection Server 0 (''10.0.0.7'', 5010) [Chunk (''HELLO'' @ [LF])] new_writer) =
   Some ([], [0])"
  by (simp add: server_eval)

lemma hello_then_quit:
  "map_option (\<lambda>(r, s). (connection_queue s, disconnection_queue s))
     (handle_connection Server 0 (''10.0.0.7'', 5010)
        [Chunk (''HELLO'' @ [LF]), Chunk (''quit'' @ [LF])] new_writer) =
   Some ([], [0])"
  by (simp add: server_eval)

lemma request_line_then_eof:
  "map_option (\<lambda>(r, s). (connection_queue s, disconnection_queue s))
     (handle_connection Server 0 (''10.0.0.7'', 5010)
        [Chunk (''GET / HTTP/1.1'' @ [CR, LF])] new_writer) =
   Some ([], [0, 0])"
  by (simp add: server_eval)

lemma waiting_room_facts:
  "server waiting_room = hung_up" "start_cooldown waiting_room = 0"
  "players waiting_room = []"
  "game waiting_room = Some (construct (example_game 2 (\<lambda>i. True) 1))"
  "game_start_cooldown (game_type waiting_room) g = 1"
  by (simp_all add: waiting_room_def start_def GameManager_def create_visualizer_file_def
      Let_def example_game_def)

text \<open>
  C9: every call of \<open>close_connection\<close> appends the connection to the disconnection queue
  (at least once, and nothing but that connection) and leaves the connection queue as
  it is, also for a connection that never completed the handshake: a client that says
  \<open>HELLO\<close> and then closes or sends \<open>quit\<close>, and a browser that sends its request line and
  closes, are in the disconnection queue and were never in the connection queue. When
  the manager drains a disconnection queue that is not empty, the start cooldown is
  reset to the game's; events of connections that are not players raise nothing.
\<close>

theorem disconnect_events_without_connect_events:
  "(\<exists>k. disconnection_queue (close_connection s c) =
          disconnection_queue s @ replicate (Suc k) c) \<and>
   connection_queue (close_connection s c) = connection_queue s \<and>
   map_option (\<lambda>(r, s). (connection_queue s, disconnection_queue s))
     (handle_connection Server 0 (''10.0.0.7'', 5010) [Chunk (''HELLO'' @ [LF])] new_writer) =
     Some ([], [0]) \<and>
   map_option (\<lambda>(r, s). (connection_queue s, disconnection_queue s))
     (handle_connection Server 0 (''10.0.0.7'', 5010)
        [Chunk (''HELLO'' @ [LF]), Chunk (''quit'' @ [LF])] new_writer) =
     Some ([], [0]) \<and>
   map_option (\<lambda>(r, s). (connection_queue s, disconnection_queue s))
     (handle_connection Server 0 (''10.0.0.7'', 5010)
        [Chunk (''GET / HTTP/1.1'' @ [CR, LF])] new_writer) =
     Some ([], [0, 0]) \<and>
   (game gm = Some g \<and> disconnection_queue (server gm) \<noteq> [] \<longrightarrow>
      start_cooldown (snd (handle_connection_queues gm)) = game_start_cooldown (game_type gm) g) \<and>
   (game gm = Some g \<and> set (disconnection_queue (server gm)) \<inter> set (players gm) = {} \<longrightarrow>
      fst (handle_connection_queues gm) = Inr ())"
  using close_send_queue(1)[of s c] close_send_connection_queue(1)[of s c]
    hello_then_eof hello_then_quit request_line_then_eof
    handle_connection_queues_resets[of gm g] handle_connection_queues_strangers[of gm g]
  by blast

theorem disconnect_events_without_connect_events_witness:
  "connection_queue (server waiting_room) = [] \<and>
   disconnection_queue (server waiting_room) = [0] \<and>
   start_cooldown waiting_room = 0 \<and>
   start_cooldown (snd (handle_connection_queues waiting_room)) = 1 \<and>
   fst (handle_connection_queues waiting_room) = Inr ()"
  using disconnect_events_without_connect_events
    [of Server 0 waiting_room "construct (example_game 2 (\<lambda>i. True) 1)"]
    waiting_room_facts hung_up_queues
  by simp

end
